theory Spec2Isabelle
  imports Main "HOL-Library.AList"
begin

section \<open>Values, errors and effects\<close>

text \<open>
  The player is written in JavaScript. An exception is a value of type \<open>error\<close>:
  \<open>Error msg\<close> is \<^verbatim>\<open>throw new Error(msg)\<close> (also an error thrown by a collaborator),
  \<open>TypeError msg\<close> is what the runtime raises when a property of \<^verbatim>\<open>null\<close> is read.
\<close>

datatype error = Error string | TypeError string

text \<open>
  Identifiers handed out by the player collection are JavaScript values whose type the
  session does not fix; the session only tests them with \<^verbatim>\<open>!id\<close> and \<^verbatim>\<open>!==\<close>.
\<close>

datatype jsval = Undefined | Num nat | Str string

fun truthy :: "jsval \<Rightarrow> bool" where
  "truthy Undefined = False"
| "truthy (Num n) = (n \<noteq> 0)"
| "truthy (Str s) = (s \<noteq> [])"

text \<open>
  The argument of \<^verbatim>\<open>changeSrc\<close>: nothing (\<^verbatim>\<open>undefined\<close> or \<^verbatim>\<open>null\<close>), a url string or
  a StreamConfiguration object. The StreamConfiguration class is not part of the
  sources at hand, so its values are left abstract (the type variable \<open>'c\<close>).
\<close>

datatype 'c arg = Nil | Url string | Config 'c

fun truthy_arg :: "'c arg \<Rightarrow> bool" where
  "truthy_arg Nil = False"
| "truthy_arg (Url u) = (u \<noteq> [])"
| "truthy_arg (Config c) = True"

fun arg_of :: "'c option \<Rightarrow> 'c arg" where
  "arg_of None = Nil"
| "arg_of (Some c) = Config c"

type_synonym element = nat

datatype level = LDebug | LInfo | LWarn | LError

text \<open>
  What an operation does to the outside world, in program order: log lines
  (\<open>LogN\<close> carries the number interpolated into the template, \<open>LogE\<close> is
  \<^verbatim>\<open>logger.error(error)\<close>), calls on the player collection, timers, and calls of
  \<^verbatim>\<open>destroy()\<close> on a session.
\<close>

datatype 'c action =
    Log level string
  | LogN level string nat
  | LogE error
  | CollectionCreate "element option" "element option" 'c
  | CollectionRemoveAll
  | CollectionDestroy
  | ListenFirstFrame jsval
  | SleepSeconds "nat option"
  | IovDestroy nat

text \<open>
  How an \<^verbatim>\<open>async\<close> call stands when it stops running: it has returned, it has thrown, or
  it is suspended on the promise that waits for the first frame of the given player.
\<close>

datatype outcome = Returned | Threw error | AwaitingFirstFrame jsval

record config =
  videoElementId :: "string option"
  videoElement :: "element option"
  containerElementId :: "string option"
  containerElement :: "element option"

text \<open>
  The collaborators of a session and of the registry (browser, DOM, player collection,
  StreamConfiguration, the Destroyable base class) are not in the sources; what they
  answer during one operation is a parameter.
\<close>

record 'c env =
  supported :: bool
  documentHidden :: bool
  onLine :: bool
  visibilityChangeEventName :: "string option"
  getElementById :: "string \<Rightarrow> element option"
  createElement :: element
  parentNode :: "element \<Rightarrow> element option"
  fromUrl :: "string \<Rightarrow> error + 'c"
  playerCreate :: "element option \<Rightarrow> element option \<Rightarrow> 'c \<Rightarrow> error + jsval"
  removeAllOutcome :: "error option"
  collectionDestroyOutcome :: "error option"
  iovDestroyOutcome :: "nat \<Rightarrow> error option"
  IovPlayer_events :: "string \<Rightarrow> string option"

section \<open>The session (class Iov)\<close>

text \<open>
  The fields of a session. \<open>iov_id\<close>, \<open>iov_containerElement\<close>,
  \<open>iov_videoElement\<close> and \<open>iov_config\<close> are \<^verbatim>\<open>id\<close>, \<^verbatim>\<open>containerElement\<close>,
  \<^verbatim>\<open>videoElement\<close> and \<^verbatim>\<open>_config\<close>. No statement of the class assigns
  \<open>SHOW_NEXT_VIDEO_DELAY\<close> or \<open>pendingChangeSrcStreamConfiguration\<close>, which are
  read by the first-frame listener and by the registry.
\<close>

record 'c iov =
  iov_id :: nat
  shouldRetainVideoElement :: bool
  iov_containerElement :: "element option"
  iov_videoElement :: "element option"
  iov_config :: "config option"
  ENABLE_METRICS :: bool
  CONNECTION_CHANGE_PLAY_DELAY :: nat
  SHOW_NEXT_VIDEO_DELAY :: "nat option"
  streamConfiguration :: "'c option"
  pendingChangeSrcStreamConfiguration :: "'c option"
  isStopping :: bool
  isDestroyed :: bool
  isDestroyComplete :: bool

definition DEFAULT_ENABLE_METRICS :: bool where
  "DEFAULT_ENABLE_METRICS = False"

definition DEFAULT_CONNECTION_CHANGE_PLAY_DELAY :: nat where
  "DEFAULT_CONNECTION_CHANGE_PLAY_DELAY = 5"

fun truthy_str :: "string option \<Rightarrow> bool" where
  "truthy_str None = False"
| "truthy_str (Some s) = (s \<noteq> [])"

fun lookupId :: "'c env \<Rightarrow> string option \<Rightarrow> element option" where
  "lookupId env None = None"
| "lookupId env (Some s) = getElementById env s"

text \<open>
  \<^verbatim>\<open>#initializeElements\<close>: the container, the video element and
  \<^verbatim>\<open>shouldRetainVideoElement\<close>, or the error thrown. Class lists and element
  attributes live in the DOM and are not part of the state modelled here.
\<close>

definition initializeElements ::
  "'c env \<Rightarrow> config \<Rightarrow> error + (element option \<times> element option \<times> bool)" where
  "initializeElements env cfg =
    (let container = (if truthy_str (containerElementId cfg)
                      then lookupId env (containerElementId cfg)
                      else containerElement cfg);
         retain = (truthy_str (videoElementId cfg) \<or> videoElement cfg \<noteq> None);
         video = (if truthy_str (videoElementId cfg)
                  then lookupId env (videoElementId cfg)
                  else videoElement cfg)
     in if retain \<and> video = None then
          (if truthy_str (videoElementId cfg)
           then Inl (Error ''Unable to get element with id: ${videoElementId}'')
           else Inl (Error ''No video element or id was passed''))
        else if video = None \<and> container = None then
          Inl (Error ''Must pass at least 1 valid container or video element or id'')
        else
          (let video' = (case video of None \<Rightarrow> Some (createElement env) | Some v \<Rightarrow> Some v);
               container' = (case container of
                               None \<Rightarrow> (case video' of None \<Rightarrow> None | Some v \<Rightarrow> parentNode env v)
                             | Some c \<Rightarrow> Some c)
           in if container' = None \<or> video' = None
              then Inl (Error ''Unable to get both the container and video elements'')
              else Inr (container', video', retain)))"

text \<open>
  The constructor, reached through \<^verbatim>\<open>Iov.factory\<close>. The registry always passes a
  number as id, so \<^verbatim>\<open>isNil(id)\<close> is false by type. A falsy config is \<open>None\<close>; a
  truthy config without any of the four properties (a string, say) is a record of four
  \<open>None\<close>. The fields the constructor does not assign read as \<^verbatim>\<open>undefined\<close>:
  \<open>None\<close>, or \<open>False\<close> for \<open>isStopping\<close>; the two destruction flags belong to
  the Destroyable base class and start false. The listeners on document and window, the
  construction of the player collection and the four listeners on it are taken to
  succeed.
\<close>

definition Iov_factory :: "'c env \<Rightarrow> nat \<Rightarrow> config option \<Rightarrow> error + 'c iov" where
  "Iov_factory env i cfg =
    (if \<not> supported env then
       Inl (Error ''You are using an unsupported browser - Unable to play CLSP video'')
     else case cfg of
       None \<Rightarrow> Inl (Error ''Tried to construct without config'')
     | Some c \<Rightarrow>
        (case initializeElements env c of
           Inl e \<Rightarrow> Inl e
         | Inr (container, video, retain) \<Rightarrow>
             Inr \<lparr> iov_id = i,
                   shouldRetainVideoElement = retain,
                   iov_containerElement = container,
                   iov_videoElement = video,
                   iov_config = Some c,
                   ENABLE_METRICS = DEFAULT_ENABLE_METRICS,
                   CONNECTION_CHANGE_PLAY_DELAY = DEFAULT_CONNECTION_CHANGE_PLAY_DELAY,
                   SHOW_NEXT_VIDEO_DELAY = None,
                   streamConfiguration = None,
                   pendingChangeSrcStreamConfiguration = None,
                   isStopping = False,
                   isDestroyed = False,
                   isDestroyComplete = False \<rparr>))"

text \<open>
  \<^verbatim>\<open>StreamConfiguration.isStreamConfiguration(url) ? url : StreamConfiguration.fromUrl(url)\<close>.
  \<^verbatim>\<open>changeSrc\<close> refuses a falsy argument before it gets here, so the last equation
  is never used.
\<close>

fun toStreamConfiguration :: "'c env \<Rightarrow> 'c arg \<Rightarrow> error + 'c" where
  "toStreamConfiguration env (Config c) = Inr c"
| "toStreamConfiguration env (Url u) = fromUrl env u"
| "toStreamConfiguration env Nil = fromUrl env []"

text \<open>
  \<^verbatim>\<open>changeSrc\<close> up to the point where it returns, throws or suspends on the promise
  that waits for the first frame. The result is the session afterwards, the actions
  performed, and how the call stands.
\<close>

definition changeSrc ::
  "'c env \<Rightarrow> 'c iov \<Rightarrow> 'c arg \<Rightarrow> 'c iov \<times> 'c action list \<times> outcome" where
  "changeSrc env s url =
    (if isDestroyed s then
       (s, [Log LInfo ''Tried to changeSrc while destroyed''], Returned)
     else if \<not> truthy_arg url then
       (s, [Log LInfo ''Changing Stream...''], Threw (Error ''url is required to changeSrc''))
     else case toStreamConfiguration env url of
       Inl e \<Rightarrow> (s, [Log LInfo ''Changing Stream...''], Threw e)
     | Inr c \<Rightarrow>
        (let s1 = s\<lparr>streamConfiguration := Some c\<rparr> in
         if documentHidden env then
           (s1, [Log LInfo ''Changing Stream...'',
                 Log LInfo ''Tried to changeSrc while tab was hidden!''], Returned)
         else case playerCreate env (iov_containerElement s1) (iov_videoElement s1) c of
           Inl e \<Rightarrow>
             (s1, [Log LInfo ''Changing Stream...'',
                   CollectionCreate (iov_containerElement s1) (iov_videoElement s1) c,
                   Log LError ''Error while creating / playing the player for stream ${streamName}'',
                   LogE e], Threw e)
         | Inr iovPlayerId \<Rightarrow>
             if \<not> truthy iovPlayerId then
               (s1, [Log LInfo ''Changing Stream...'',
                     CollectionCreate (iov_containerElement s1) (iov_videoElement s1) c],
                Threw (Error ''IovPlayer was created, but no id was returned''))
             else
               (s1, [Log LInfo ''Changing Stream...'',
                     CollectionCreate (iov_containerElement s1) (iov_videoElement s1) c,
                     ListenFirstFrame iovPlayerId],
                AwaitingFirstFrame iovPlayerId)))"

subsection \<open>The promise awaited by changeSrc\<close>

datatype promise = Pending | Resolved | Rejected error

text \<open>Settling a promise that is already settled has no effect.\<close>

fun resolve :: "promise \<Rightarrow> promise" where
  "resolve Pending = Resolved"
| "resolve p = p"

fun reject :: "error \<Rightarrow> promise \<Rightarrow> promise" where
  "reject e Pending = Rejected e"
| "reject e p = p"

text \<open>
  One FIRST\_FRAME\_SHOWN event as the listener of \<^verbatim>\<open>changeSrc\<close> sees it: the id in
  the payload, and the value of \<^verbatim>\<open>this.isDestroyed\<close> that the listener reads once
  its sleep is over.
\<close>

record firstFrameShown =
  payload_id :: jsval
  destroyedAfterSleep :: bool

text \<open>
  The listener registered by \<^verbatim>\<open>changeSrc\<close> for the player \<open>iovPlayerId\<close>, run on one
  event: the promise afterwards and the actions performed.
\<close>

definition firstFrameShownListener ::
  "'c iov \<Rightarrow> jsval \<Rightarrow> firstFrameShown \<Rightarrow> promise \<Rightarrow> promise \<times> 'c action list" where
  "firstFrameShownListener s iovPlayerId ev p =
    (if iovPlayerId \<noteq> payload_id ev then (p, [])
     else if destroyedAfterSleep ev then
       (reject (Error ''Next player received first frame while destroyed!'') p,
        [Log LInfo ''Next player has received its first frame...'',
         SleepSeconds (SHOW_NEXT_VIDEO_DELAY s),
         Log LError ''Error while handling first frame shown event!''])
     else
       (resolve p,
        [Log LInfo ''Next player has received its first frame...'',
         SleepSeconds (SHOW_NEXT_VIDEO_DELAY s)]))"

text \<open>The promise after the events \<open>evs\<close> have been delivered, in order.\<close>

fun deliver :: "'c iov \<Rightarrow> jsval \<Rightarrow> firstFrameShown list \<Rightarrow> promise \<Rightarrow> promise" where
  "deliver s iovPlayerId [] p = p"
| "deliver s iovPlayerId (ev # evs) p =
     deliver s iovPlayerId evs (fst (firstFrameShownListener s iovPlayerId ev p))"

text \<open>
  The promise returned by a call of \<^verbatim>\<open>changeSrc\<close> once the events \<open>evs\<close> have been
  delivered: settled at once when the call returned or threw, and otherwise the promise
  the listener settles (nothing follows the \<^verbatim>\<open>await\<close> in \<^verbatim>\<open>changeSrc\<close>).
\<close>

fun promiseOf :: "'c iov \<Rightarrow> outcome \<Rightarrow> firstFrameShown list \<Rightarrow> promise" where
  "promiseOf s Returned evs = Resolved"
| "promiseOf s (Threw e) evs = Rejected e"
| "promiseOf s (AwaitingFirstFrame iovPlayerId) evs = deliver s iovPlayerId evs Pending"

subsection \<open>stop, restart and the environment handlers\<close>

text \<open>
  \<^verbatim>\<open>stop\<close> holds \<open>isStopping\<close> while it awaits \<^verbatim>\<open>removeAll()\<close> (\<open>stop_begin\<close> is
  the session during that wait) and its \<^verbatim>\<open>finally\<close> block releases it
  (\<open>stop_finally\<close>), whether \<^verbatim>\<open>removeAll()\<close> threw or not.
\<close>

definition stop_begin :: "'c iov \<Rightarrow> 'c iov" where
  "stop_begin s = s\<lparr>isStopping := True\<rparr>"

definition stop_finally :: "'c iov \<Rightarrow> 'c iov" where
  "stop_finally s = s\<lparr>isStopping := False\<rparr>"

definition stop :: "'c env \<Rightarrow> 'c iov \<Rightarrow> 'c iov \<times> 'c action list \<times> outcome" where
  "stop env s =
    (if isDestroyComplete s then (s, [], Threw (Error ''Tried to stop while destroyed''))
     else if isStopping s then (s, [Log LInfo ''Already stopping''], Returned)
     else
       (stop_finally (stop_begin s), [CollectionRemoveAll],
        (case removeAllOutcome env of None \<Rightarrow> Returned | Some e \<Rightarrow> Threw e)))"

fun onThrow :: "outcome \<Rightarrow> (error \<Rightarrow> 'c action list) \<Rightarrow> 'c action list" where
  "onThrow (Threw e) h = h e"
| "onThrow out h = []"

definition restart :: "'c env \<Rightarrow> 'c iov \<Rightarrow> 'c iov \<times> 'c action list \<times> outcome" where
  "restart env s =
    (if isDestroyed s then (s, [], Threw (Error ''Tried to restart while destroyed''))
     else
       (let (s1, t1, o1) = stop env s;
            c1 = onThrow o1 (\<lambda>e. [Log LWarn ''Failed to stop while restarting, continuing anyway...'',
                                   LogE e]);
            (s2, t2, o2) = changeSrc env s1 (arg_of (streamConfiguration s1));
            c2 = onThrow o2 (\<lambda>e. [Log LError ''Failed to changeSrc while restarting!''])
        in (s2, [Log LInfo ''Restart''] @ t1 @ c1 @ t2 @ c2, o2)))"

text \<open>A handler that catches and logs: it returns unless the call is still suspended.\<close>

fun swallow :: "outcome \<Rightarrow> outcome" where
  "swallow (Threw e) = Returned"
| "swallow out = out"

definition onConnectionChange :: "'c env \<Rightarrow> 'c iov \<Rightarrow> 'c iov \<times> 'c action list \<times> outcome" where
  "onConnectionChange env s =
    (if \<not> onLine env then
       (let (s1, t1, o1) = stop env s;
            c1 = onThrow o1 (\<lambda>e. [Log LWarn ''Error encountered while stopping during offline event:'',
                                   LogE e])
        in (s1, [Log LInfo ''Offline!''] @ t1 @ c1, Returned))
     else
       (let (s1, t1, o1) = restart env s;
            c1 = onThrow o1 (\<lambda>e. [Log LError ''Error while trying to restart during online event'',
                                   LogE e])
        in (s1, [Log LInfo ''Back online...''] @ t1 @ c1, swallow o1)))"

definition onVisibilityChange :: "'c env \<Rightarrow> 'c iov \<Rightarrow> 'c iov \<times> 'c action list \<times> outcome" where
  "onVisibilityChange env s =
    (if documentHidden env then
       (let (s1, t1, o1) = stop env s;
            c1 = onThrow o1 (\<lambda>e. [Log LWarn ''Error while trying to stop during visibilityChange event'',
                                   LogE e])
        in (s1, t1 @ c1, Returned))
     else
       (let (s1, t1, o1) = restart env s;
            c1 = onThrow o1 (\<lambda>e. [Log LError ''Error while restarting during onVisibilityChange!'',
                                   LogE e])
        in (s1, [Log LInfo ''Back in focus...''] @ t1 @ c1, swallow o1)))"

text \<open>
  \<^verbatim>\<open>#uninitializeElements\<close> reads the class lists of both elements first, which
  throws when an element is \<^verbatim>\<open>null\<close> (as it is once the session has been through
  \<^verbatim>\<open>_destroy\<close>).
\<close>

definition uninitializeElements :: "'c iov \<Rightarrow> error + 'c iov" where
  "uninitializeElements s =
    (if iov_containerElement s = None \<or> iov_videoElement s = None
     then Inl (TypeError ''Cannot read properties of null'')
     else Inr (s\<lparr>iov_videoElement := None, iov_containerElement := None\<rparr>))"

text \<open>
  \<^verbatim>\<open>_destroy\<close>, the session's own part of destruction, up to the call of
  \<^verbatim>\<open>super._destroy()\<close> (the base classes are not in the sources).
\<close>

definition iov_destroy :: "'c env \<Rightarrow> 'c iov \<Rightarrow> 'c iov \<times> 'c action list \<times> outcome" where
  "iov_destroy env s =
    (let (s1, t1, o1) = stop env s;
         c1 = onThrow o1 (\<lambda>e. [Log LError ''Error while stopping while destroying'', LogE e]);
         c2 = (case collectionDestroyOutcome env of
                 None \<Rightarrow> []
               | Some e \<Rightarrow> [Log LError ''Error while destroying IOV Player Collection while destroying'',
                            LogE e]);
         s2 = s1\<lparr>streamConfiguration := None\<rparr>;
         t = t1 @ c1 @ [CollectionDestroy] @ c2 @ [Log LInfo ''Unnitializing elements...'']
     in case uninitializeElements s2 of
          Inl e \<Rightarrow> (s2, t, Threw e)
        | Inr s3 \<Rightarrow> (s3\<lparr>iov_config := None\<rparr>, t, Returned))"

section \<open>The registry (class IovCollection)\<close>

text \<open>
  \<open>iovs\<close> and \<open>pendingRemoval\<close> are objects used as dictionaries; \<^verbatim>\<open>destroy\<close>
  sets both to \<^verbatim>\<open>null\<close>, which is \<open>None\<close> here. A session id is a number; the
  registry tests it with \<^verbatim>\<open>!id\<close>, which holds of \<open>0\<close> only.
\<close>

record 'c registry =
  iovs :: "(nat \<times> 'c iov) list option"
  pendingRemoval :: "nat set option"
  isDestroyedC :: bool
  isDestroyCompleteC :: bool

text \<open>The module: its counter \<^verbatim>\<open>totalIovCount\<close> and the singleton collection.\<close>

record 'c world =
  totalIovCount :: nat
  collection :: "'c registry"

definition factory :: "'c registry" where
  "factory = \<lparr> iovs = Some [], pendingRemoval = Some {},
               isDestroyedC = False, isDestroyCompleteC = False \<rparr>"

definition initial :: "'c world" where
  "initial = \<lparr> totalIovCount = 0, collection = factory \<rparr>"

text \<open>
  \<^verbatim>\<open>++totalIovCount\<close> on a JavaScript number, an IEEE 754 double: exact as long as
  the result is at most \<open>2 ^ 53\<close>; at \<open>2 ^ 53\<close> the sum \<open>2 ^ 53 + 1\<close> is not
  representable and rounds (ties to even) back to \<open>2 ^ 53\<close>. Counting up from \<open>0\<close>
  never yields a value above \<open>2 ^ 53\<close>.
\<close>

definition increment :: "nat \<Rightarrow> nat" where
  "increment n = (if n < 2 ^ 53 then n + 1 else n)"

definition has :: "'c registry \<Rightarrow> nat \<Rightarrow> error + bool" where
  "has r i =
    (if i = 0 then Inr False
     else case pendingRemoval r of
       None \<Rightarrow> Inl (TypeError ''Cannot read properties of null'')
     | Some p \<Rightarrow>
         if i \<in> p then Inr False
         else (case iovs r of
                 None \<Rightarrow> Inl (TypeError ''Cannot convert undefined or null to object'')
               | Some m \<Rightarrow> Inr (map_of m i \<noteq> None)))"

definition get :: "'c registry \<Rightarrow> nat \<Rightarrow> error + 'c iov option" where
  "get r i =
    (case has r i of
       Inl e \<Rightarrow> Inl e
     | Inr False \<Rightarrow> Inr None
     | Inr True \<Rightarrow>
         (case iovs r of
            None \<Rightarrow> Inl (TypeError ''Cannot read properties of null'')
          | Some m \<Rightarrow> Inr (map_of m i)))"

definition add :: "'c registry \<Rightarrow> 'c iov \<Rightarrow> error + ('c registry \<times> 'c action list)" where
  "add r iov =
    (let i = iov_id iov in
     if i = 0 then Inl (Error ''Tried to add Iov without id'')
     else case has r i of
       Inl e \<Rightarrow> Inl e
     | Inr True \<Rightarrow> Inl (Error ''Cannot add an Iov with a previously-used id'')
     | Inr False \<Rightarrow>
         (case iovs r of
            None \<Rightarrow> Inl (TypeError ''Cannot set properties of null'')
          | Some m \<Rightarrow>
              Inr (r\<lparr>iovs := Some (AList.update i iov m)\<rparr>, [LogN LInfo ''Adding Iov ${id}'' i])))"

text \<open>What \<^verbatim>\<open>remove\<close> returns: \<^verbatim>\<open>this\<close>, or nothing.\<close>

datatype returned = This | Void

text \<open>
  The statements of \<^verbatim>\<open>remove\<close> once the session has been found, in program order:
  each entry is the registry after the statement and the actions the statement
  performs. The \<^verbatim>\<open>catch\<close> entry is there only when \<^verbatim>\<open>iov.destroy()\<close> threw.
  \<^verbatim>\<open>remove\<close> gets here only after \<^verbatim>\<open>get\<close> has returned a session, so both
  dictionaries are there.
\<close>

definition remove_steps ::
  "'c env \<Rightarrow> 'c registry \<Rightarrow> nat \<Rightarrow> ('c registry \<times> 'c action list) list" where
  "remove_steps env r i =
    (let r1 = r\<lparr>pendingRemoval := map_option (insert i) (pendingRemoval r)\<rparr>;
         r2 = r1\<lparr>iovs := map_option (AList.delete i) (iovs r1)\<rparr>;
         r3 = r2\<lparr>pendingRemoval := map_option (\<lambda>p. p - {i}) (pendingRemoval r2)\<rparr>
     in [(r1, []),
         (r2, []),
         (r2, [Log LInfo ''IovCollection - removing iov...'', IovDestroy i])]
        @ (case iovDestroyOutcome env i of
             None \<Rightarrow> []
           | Some e \<Rightarrow> [(r2, [LogN LError ''Error destroying Iov ${id} while removing'' i, LogE e])])
        @ [(r3, [])])"

definition remove ::
  "'c env \<Rightarrow> 'c registry \<Rightarrow> nat \<Rightarrow> 'c registry \<times> 'c action list \<times> (error + returned)" where
  "remove env r i =
    (case get r i of
       Inl e \<Rightarrow> (r, [], Inl e)
     | Inr None \<Rightarrow> (r, [], Inr Void)
     | Inr (Some iov) \<Rightarrow>
         (let steps = remove_steps env r i in
          (fst (last steps), concat (map snd steps),
           Inr (case iovDestroyOutcome env i of None \<Rightarrow> This | Some e \<Rightarrow> Void))))"

text \<open>
  The loop of \<^verbatim>\<open>destroy\<close> over the keys of \<open>iovs\<close> (\<^verbatim>\<open>for ... in\<close> visits integer
  keys in ascending order), one \<^verbatim>\<open>remove\<close> after the other.
\<close>

fun keys :: "'c registry \<Rightarrow> nat list" where
  "keys r = (case iovs r of None \<Rightarrow> [] | Some m \<Rightarrow> sort (map fst m))"

fun remove_each ::
  "'c env \<Rightarrow> nat list \<Rightarrow> 'c registry \<Rightarrow> 'c registry \<times> 'c action list" where
  "remove_each env [] r = (r, [])"
| "remove_each env (i # ids) r =
     (let (r1, t1, res) = remove env r i;
          c1 = (case res of
                  Inl e \<Rightarrow> [LogN LError ''Error while removing IOV ${id} while destroying'' i, LogE e]
                | Inr x \<Rightarrow> []);
          (r2, t2) = remove_each env ids r1
      in (r2, t1 @ c1 @ t2))"

definition destroy :: "'c env \<Rightarrow> 'c registry \<Rightarrow> 'c registry \<times> 'c action list" where
  "destroy env r =
    (if isDestroyedC r then (r, [])
     else
       (let r0 = r\<lparr>isDestroyedC := True\<rparr>;
            (r1, t1) = remove_each env (keys r0) r0;
            r2 = r1\<lparr>iovs := None, pendingRemoval := None, isDestroyCompleteC := True\<rparr>
        in (r2, t1 @ [Log LInfo ''destroy complete''])))"

subsection \<open>Event names and listener registration\<close>

text \<open>
  The static table \<^verbatim>\<open>Iov.events\<close>. Four of its values are read from
  \<^verbatim>\<open>IovPlayer.events\<close>, which is not in the sources. A name the table does not
  define reads as \<^verbatim>\<open>undefined\<close>, which is \<open>None\<close>.
\<close>

definition Iov_events_table :: "'c env \<Rightarrow> (string \<times> string option) list" where
  "Iov_events_table env =
    [(''METRIC'', Some ''metric''),
     (''FIRST_FRAME_SHOWN'', IovPlayer_events env ''FIRST_FRAME_SHOWN''),
     (''VIDEO_RECEIVED'', IovPlayer_events env ''VIDEO_RECEIVED''),
     (''VIDEO_INFO_RECEIVED'', IovPlayer_events env ''VIDEO_INFO_RECEIVED''),
     (''IFRAME_DESTROYED_EXTERNALLY'', IovPlayer_events env ''IFRAME_DESTROYED_EXTERNALLY'')]"

definition Iov_events :: "'c env \<Rightarrow> string \<Rightarrow> string option" where
  "Iov_events env name = (case map_of (Iov_events_table env) name of None \<Rightarrow> None | Some v \<Rightarrow> v)"

fun name_text :: "string option \<Rightarrow> string" where
  "name_text None = ''undefined''"
| "name_text (Some s) = s"

definition quoted :: "string \<Rightarrow> string" where
  "quoted s = [CHR 0x22] @ s @ [CHR 0x22]"

text \<open>
  \<^verbatim>\<open>EventEmitter.on\<close>: \<open>eventNames\<close> is \<^verbatim>\<open>Object.values(this.constructor.events)\<close>;
  the result is the error thrown, if any.
\<close>

definition EventEmitter_on :: "string option list \<Rightarrow> string option \<Rightarrow> bool \<Rightarrow> error option" where
  "EventEmitter_on eventNames eventName handler =
    (if eventName \<notin> set eventNames then
       Some (Error (''Unable to register listener for unknown event '' @ quoted (name_text eventName)))
     else if \<not> handler then
       Some (Error (''Unable to register for event '' @ quoted (name_text eventName)
                    @ '' without a handler''))
     else None)"

text \<open>The four \<^verbatim>\<open>iov.on(...)\<close> calls of \<^verbatim>\<open>create\<close>: the first error thrown, if any.\<close>

fun first_error :: "error option list \<Rightarrow> error option" where
  "first_error [] = None"
| "first_error (None # xs) = first_error xs"
| "first_error (Some e # xs) = Some e"

definition registerHandlers :: "'c env \<Rightarrow> error option" where
  "registerHandlers env =
    (let eventNames = map snd (Iov_events_table env) in
     first_error
       [EventEmitter_on eventNames (Iov_events env ''IFRAME_DESTROYED_EXTERNALLY'') True,
        EventEmitter_on eventNames (Iov_events env ''REINITIALZE_ERROR'') True,
        EventEmitter_on eventNames (Iov_events env ''NO_STREAM_CONFIGURATION'') True,
        EventEmitter_on eventNames (Iov_events env ''RETRY_ERROR'') True])"

subsection \<open>create and the retry path\<close>

definition create ::
  "'c env \<Rightarrow> 'c world \<Rightarrow> config option \<Rightarrow> 'c world \<times> 'c action list \<times> (error + 'c iov)" where
  "create env w cfg =
    (let i = increment (totalIovCount w);
         w1 = w\<lparr>totalIovCount := i\<rparr>
     in case Iov_factory env i cfg of
          Inl e \<Rightarrow> (w1, [LogN LInfo ''Creating Iov ${id}'' i], Inl e)
        | Inr iov \<Rightarrow>
            (case registerHandlers env of
               Some e \<Rightarrow>
                 (w1, [LogN LInfo ''Creating Iov ${id}'' i, LogN LInfo ''Created Iov ${id}'' i],
                  Inl e)
             | None \<Rightarrow>
                 (case add (collection w1) iov of
                    Inl e \<Rightarrow>
                      (w1, [LogN LInfo ''Creating Iov ${id}'' i,
                            LogN LInfo ''Created Iov ${id}'' i], Inl e)
                  | Inr (r, t) \<Rightarrow>
                      (w1\<lparr>collection := r\<rparr>,
                       [LogN LInfo ''Creating Iov ${id}'' i,
                        LogN LInfo ''Created Iov ${id}'' i] @ t,
                       Inr iov))))"

text \<open>
  \<^verbatim>\<open>iov.pendingChangeSrcStreamConfiguration || iov.streamConfiguration\<close>
  (a configuration object is truthy).
\<close>

definition retryTarget :: "'c iov \<Rightarrow> 'c option" where
  "retryTarget iov =
    (case pendingChangeSrcStreamConfiguration iov of
       Some c \<Rightarrow> Some c
     | None \<Rightarrow> streamConfiguration iov)"

text \<open>
  The registry holds the session object itself, so what the session becomes in
  \<^verbatim>\<open>changeSrc\<close> is what the registry holds afterwards.
\<close>

definition store :: "'c iov \<Rightarrow> 'c registry \<Rightarrow> 'c registry" where
  "store s r = r\<lparr>iovs := map_option (AList.update (iov_id s) s) (iovs r)\<rparr>"

definition retry ::
  "'c env \<Rightarrow> 'c world \<Rightarrow> 'c iov \<Rightarrow> config option \<Rightarrow> 'c world \<times> 'c action list \<times> outcome" where
  "retry env w iov cfg =
    (let i = iov_id iov in
     case has (collection w) i of
       Inl e \<Rightarrow> (w, [], Threw e)
     | Inr False \<Rightarrow>
         (w, [LogN LInfo ''Attempted to retry Iov ${id} which has already been removed'' i],
          Returned)
     | Inr True \<Rightarrow>
         (let target = retryTarget iov;
              (r1, t1, res1) = remove env (collection w) i;
              c1 = (case res1 of
                      Inl e \<Rightarrow> [Log LError ''IovCollection: error while removing iov from collection, continuing anyway...'',
                                LogE e]
                    | Inr x \<Rightarrow> []);
              (w2, t2, res2) = create env (w\<lparr>collection := r1\<rparr>) cfg
          in case res2 of
               Inl e \<Rightarrow> (w2, t1 @ c1 @ t2, Threw e)
             | Inr newIov \<Rightarrow>
                 (let (s', t3, o3) = changeSrc env newIov (arg_of target);
                      c3 = onThrow o3 (\<lambda>e. [Log LError ''IovCollection: Error on changeSrc while retrying'',
                                             LogE e])
                  in (w2\<lparr>collection := store s' (collection w2)\<rparr>,
                      t1 @ c1 @ t2 @ t3 @ c3, swallow o3))))"

subsection \<open>Sequences of registry operations\<close>

datatype 'c rop =
    Create "config option"
  | Add "'c iov"
  | Remove nat
  | Destroy
  | Retry nat "config option"

text \<open>
  One operation on the module, run to completion: the page has one thread, and what
  other code does while an operation waits is not modelled (the program points of
  \<^verbatim>\<open>remove\<close> are, in \<open>remove_steps\<close>). The operations are the public methods
  that change the registry, \<^verbatim>\<open>create\<close>, \<^verbatim>\<open>add\<close> (with any session the caller
  has at hand), \<^verbatim>\<open>remove\<close> and \<^verbatim>\<open>destroy\<close>, and the retry. A retry is triggered
  by an event of a session the registry created; it acts on the session the registry
  holds under that id.
\<close>

fun run :: "'c env \<Rightarrow> 'c world \<Rightarrow> 'c rop \<Rightarrow> 'c world" where
  "run env w (Create cfg) = fst (create env w cfg)"
| "run env w (Add iov) =
     (case add (collection w) iov of
        Inl e \<Rightarrow> w
      | Inr (r, t) \<Rightarrow> w\<lparr>collection := r\<rparr>)"
| "run env w (Remove i) = w\<lparr>collection := fst (remove env (collection w) i)\<rparr>"
| "run env w Destroy = w\<lparr>collection := fst (destroy env (collection w))\<rparr>"
| "run env w (Retry i cfg) =
     (case get (collection w) i of
        Inr (Some iov) \<Rightarrow> fst (retry env w iov cfg)
      | _ \<Rightarrow> w)"

fun exec :: "('c env \<times> 'c rop) list \<Rightarrow> 'c world \<Rightarrow> 'c world" where
  "exec [] w = w"
| "exec ((env, op) # ops) w = exec ops (run env w op)"

text \<open>The ids under which the registry holds a session.\<close>

definition held :: "'c registry \<Rightarrow> nat set" where
  "held r = (case iovs r of None \<Rightarrow> {} | Some m \<Rightarrow> fst ` set m)"

text \<open>
  The id an operation may bring into the registry by the caller's choice: that of the
  session handed to \<^verbatim>\<open>add\<close>, which refuses a falsy id.
\<close>

fun added :: "'c rop \<Rightarrow> nat set" where
  "added (Add iov) = (if iov_id iov = 0 then {} else {iov_id iov})"
| "added op = {}"

subsection \<open>Sequences of session operations\<close>

datatype 'c sop =
    ChangeSrc "'c arg"
  | Stop
  | Restart
  | OnConnectionChange
  | OnVisibilityChange
  | DestroyOwn

text \<open>
  One method of the session, run until it returns, throws or suspends on the
  first-frame promise.
\<close>

fun srun :: "'c env \<Rightarrow> 'c iov \<Rightarrow> 'c sop \<Rightarrow> 'c iov" where
  "srun env s (ChangeSrc url) = fst (changeSrc env s url)"
| "srun env s Stop = fst (stop env s)"
| "srun env s Restart = fst (restart env s)"
| "srun env s OnConnectionChange = fst (onConnectionChange env s)"
| "srun env s OnVisibilityChange = fst (onVisibilityChange env s)"
| "srun env s DestroyOwn = fst (iov_destroy env s)"

fun sexec :: "('c env \<times> 'c sop) list \<Rightarrow> 'c iov \<Rightarrow> 'c iov" where
  "sexec [] s = s"
| "sexec ((env, op) # ops) s = sexec ops (srun env s op)"

section \<open>Notions used in the properties\<close>

text \<open>
  The errors by which the session refuses to work on a destroyed object; nothing else
  in the sources is an error of that kind.
\<close>

definition AlreadyDestroyed :: "error \<Rightarrow> bool" where
  "AlreadyDestroyed e \<longleftrightarrow>
     e = Error ''Tried to stop while destroyed'' \<or>
     e = Error ''Tried to restart while destroyed'' \<or>
     e = Error ''Next player received first frame while destroyed!''"

text \<open>The actions of a result, and how the call stands.\<close>

definition actions :: "'s \<times> 'c action list \<times> 'o \<Rightarrow> 'c action list" where
  "actions res = fst (snd res)"

definition result :: "'s \<times> 'c action list \<times> 'o \<Rightarrow> 'o" where
  "result res = snd (snd res)"

fun isCollectionCreate :: "'c action \<Rightarrow> bool" where
  "isCollectionCreate (CollectionCreate c v x) = True"
| "isCollectionCreate a = False"

fun isSleep :: "'c action \<Rightarrow> bool" where
  "isSleep (SleepSeconds d) = True"
| "isSleep a = False"

text \<open>The id of the session a call of \<^verbatim>\<open>create\<close> returned, if it returned one.\<close>

fun id_of :: "error + 'c iov \<Rightarrow> nat option" where
  "id_of (Inl e) = None"
| "id_of (Inr s) = Some (iov_id s)"

text \<open>
  The error with which \<^verbatim>\<open>create\<close> ends on a registry without dictionaries: that of
  the constructor, else that of the listener registration, else the one raised when
  \<^verbatim>\<open>add\<close> asks \<^verbatim>\<open>has\<close> and \<^verbatim>\<open>pendingRemoval\<close> is \<^verbatim>\<open>null\<close>.
\<close>

definition create_error :: "'c env \<Rightarrow> nat \<Rightarrow> config option \<Rightarrow> error" where
  "create_error env i cfg =
    (case Iov_factory env i cfg of
       Inl e \<Rightarrow> e
     | Inr iov \<Rightarrow>
         (case registerHandlers env of
            Some e \<Rightarrow> e
          | None \<Rightarrow> TypeError ''Cannot read properties of null''))"

text \<open>
  A registry whose dictionaries are still there: \<^verbatim>\<open>destroy\<close> has not run to its end.
\<close>

definition live :: "'c registry \<Rightarrow> bool" where
  "live r \<longleftrightarrow> iovs r \<noteq> None \<and> pendingRemoval r \<noteq> None"

text \<open>
  A registry is in one of two shapes: destroyed, with both dictionaries gone, or not
  destroyed, with both dictionaries there.
\<close>

definition shape :: "'c registry \<Rightarrow> bool" where
  "shape r \<longleftrightarrow> (if isDestroyedC r then iovs r = None \<and> pendingRemoval r = None else live r)"

text \<open>
  What holds of the module between two operations: every id under which a session is
  held is positive, and the registry is in one of its two shapes.
\<close>

definition wf :: "'c world \<Rightarrow> bool" where
  "wf w \<longleftrightarrow>
     list_all (\<lambda>k. 0 < k) (keys (collection w)) \<and>
     shape (collection w)"

text \<open>
  Every id under which a session is held has been handed out by the counter. This holds
  as long as \<^verbatim>\<open>add\<close> is called by \<^verbatim>\<open>create\<close> only.
\<close>

definition counted :: "'c world \<Rightarrow> bool" where
  "counted w \<longleftrightarrow> list_all (\<lambda>k. k \<le> totalIovCount w) (keys (collection w))"

text \<open>
  What one operation may do to the counter and to the ids held: the counter stays and
  at most the ids in \<open>A\<close> are added, or the counter is incremented and at most the
  new value is added.
\<close>

definition grows :: "nat set \<Rightarrow> 'c world \<Rightarrow> 'c world \<Rightarrow> bool" where
  "grows A w w' \<longleftrightarrow>
     (totalIovCount w' = totalIovCount w \<and> held (collection w') \<subseteq> held (collection w) \<union> A) \<or>
     (totalIovCount w' = increment (totalIovCount w) \<and>
      held (collection w') \<subseteq> insert (increment (totalIovCount w)) (held (collection w)))"

section \<open>Concrete sessions, registries and environments\<close>

definition cfg0 :: config where
  "cfg0 = \<lparr> videoElementId = Some ''my-video'', videoElement = None,
             containerElementId = None, containerElement = None \<rparr>"

text \<open>
  Modelled from the spec: \<^verbatim>\<open>StreamConfiguration.fromUrl\<close>, whose class is not in the
  sources. Section 4.1 of the specification: it "fails with InvalidUrl when the scheme
  is not one of the recognized CLSP schemes or when the host/streamName is empty". The
  schemes are \<^verbatim>\<open>clsp\<close> and \<^verbatim>\<open>clsps\<close>, and a configuration is named by its url.
\<close>

definition fromUrl_spec :: "string \<Rightarrow> error + string" where
  "fromUrl_spec u =
    (let rest = (if take 7 u = ''clsp://'' then Some (drop 7 u)
                 else if take 8 u = ''clsps://'' then Some (drop 8 u)
                 else None)
     in case rest of
          None \<Rightarrow> Inl (Error ''InvalidUrl'')
        | Some r \<Rightarrow>
            (let host = takeWhile (\<lambda>c. c \<noteq> CHR ''/'') r;
                 streamName = drop (length host + 1) r
             in if host = [] \<or> streamName = [] then Inl (Error ''InvalidUrl'') else Inr u))"

text \<open>
  A supported browser, visible and online, whose document holds the video element
  \<open>1\<close> inside the container \<open>2\<close>; urls are parsed by \<open>fromUrl_spec\<close>;
  the player class defines the four event names the session re-exports.
\<close>

definition env0 :: "string env" where
  "env0 = \<lparr> supported = True,
            documentHidden = False,
            onLine = True,
            visibilityChangeEventName = Some ''visibilitychange'',
            getElementById = (\<lambda>s. if s = ''my-video'' then Some 1 else None),
            createElement = 3,
            parentNode = (\<lambda>e. if e = 1 then Some 2 else None),
            fromUrl = fromUrl_spec,
            playerCreate = (\<lambda>c v x. Inr (Str ''player-7'')),
            removeAllOutcome = None,
            collectionDestroyOutcome = None,
            iovDestroyOutcome = (\<lambda>i. None),
            IovPlayer_events =
              (\<lambda>n. if n = ''FIRST_FRAME_SHOWN'' then Some ''firstFrameShown''
                    else if n = ''VIDEO_RECEIVED'' then Some ''videoReceived''
                    else if n = ''VIDEO_INFO_RECEIVED'' then Some ''videoInfoReceived''
                    else if n = ''IFRAME_DESTROYED_EXTERNALLY'' then Some ''iframeDestroyedExternally''
                    else None) \<rparr>"

text \<open>The session the constructor builds for id \<open>1\<close>, playing stream a.\<close>

definition s0 :: "string iov" where
  "s0 = \<lparr> iov_id = 1,
          shouldRetainVideoElement = True,
          iov_containerElement = Some 2,
          iov_videoElement = Some 1,
          iov_config = Some cfg0,
          ENABLE_METRICS = False,
          CONNECTION_CHANGE_PLAY_DELAY = 5,
          SHOW_NEXT_VIDEO_DELAY = None,
          streamConfiguration = Some ''clsp://sfs/stream-a'',
          pendingChangeSrcStreamConfiguration = None,
          isStopping = False,
          isDestroyed = False,
          isDestroyComplete = False \<rparr>"

text \<open>A registry holding that session, after one id has been handed out.\<close>

definition w1 :: "string world" where
  "w1 = \<lparr> totalIovCount = 1,
          collection = \<lparr> iovs = Some [(1, s0)], pendingRemoval = Some {},
                         isDestroyedC = False, isDestroyCompleteC = False \<rparr> \<rparr>"

text \<open>
  The same environment with a player class that does not define
  \<^verbatim>\<open>IFRAME_DESTROYED_EXTERNALLY\<close>, so that \<^verbatim>\<open>undefined\<close> is among the values of
  \<^verbatim>\<open>Iov.events\<close>.
\<close>

definition env1 :: "string env" where
  "env1 = env0\<lparr>IovPlayer_events :=
             (\<lambda>n. if n = ''IFRAME_DESTROYED_EXTERNALLY'' then None else IovPlayer_events env0 n)\<rparr>"

text \<open>The module once its counter has reached \<open>2 ^ 53\<close>.\<close>

definition w_sat :: "string world" where
  "w_sat = \<lparr> totalIovCount = 2 ^ 53, collection = factory \<rparr>"

section \<open>Properties of the session\<close>

subsection \<open>The urls of the examples\<close>

lemma fromUrl_spec_stream_a: "fromUrl_spec ''clsp://sfs/stream-a'' = Inr ''clsp://sfs/stream-a''"
  by (simp add: fromUrl_spec_def)

lemma fromUrl_spec_stream_b: "fromUrl_spec ''clsp://sfs/stream-b'' = Inr ''clsp://sfs/stream-b''"
  by (simp add: fromUrl_spec_def)

lemma fromUrl_spec_http: "fromUrl_spec ''http://sfs/stream-b'' = Inl (Error ''InvalidUrl'')"
  by (simp add: fromUrl_spec_def)

subsection \<open>The first-frame promise\<close>

text \<open>
  Events for other players leave the promise as it is; the first event for the awaited
  player settles it, and nothing after that changes it.
\<close>

lemma deliver_other_ids:
  "\<forall>ev \<in> set evs. payload_id ev \<noteq> P \<Longrightarrow> deliver s P evs p = p"
  by (induction evs arbitrary: p) (auto simp: firstFrameShownListener_def)

lemma deliver_settled:
  "p \<noteq> Pending \<Longrightarrow> deliver s P evs p = p"
proof (induction evs arbitrary: p)
  case Nil
  then show ?case by simp
next
  case (Cons ev evs)
  then show ?case
    by (cases p) (simp_all add: firstFrameShownListener_def)
qed

lemma deliver_first_match:
  "deliver s P evs Pending =
     (case find (\<lambda>ev. payload_id ev = P) evs of
        None \<Rightarrow> Pending
      | Some ev \<Rightarrow>
          if destroyedAfterSleep ev
          then Rejected (Error ''Next player received first frame while destroyed!'')
          else Resolved)"
proof (induction evs)
  case Nil
  then show ?case by simp
next
  case (Cons ev evs)
  show ?case
  proof (cases "payload_id ev = P")
    case True
    then show ?thesis
      by (simp add: firstFrameShownListener_def deliver_settled)
  next
    case False
    with Cons show ?thesis
      by (simp add: firstFrameShownListener_def)
  qed
qed

lemma deliver_resolved_needs_match:
  assumes "deliver s P evs Pending = Resolved"
  shows "\<exists>ev \<in> set evs. payload_id ev = P \<and> \<not> destroyedAfterSleep ev"
proof -
  from assms obtain ev where f: "find (\<lambda>ev. payload_id ev = P) evs = Some ev"
    and d: "\<not> destroyedAfterSleep ev"
    by (auto simp: deliver_first_match split: option.splits if_splits)
  from f have "ev \<in> set evs" "payload_id ev = P"
    by (auto simp: find_Some_iff)
  with d show ?thesis by blast
qed

lemma changeSrc_created:
  assumes "\<not> isDestroyed s" "truthy_arg url" "toStreamConfiguration env url = Inr c"
    "\<not> documentHidden env"
    "playerCreate env (iov_containerElement s) (iov_videoElement s) c = Inr P"
  shows "result (changeSrc env s url) =
           (if truthy P then AwaitingFirstFrame P
            else Threw (Error ''IovPlayer was created, but no id was returned''))"
  using assms by (simp add: changeSrc_def result_def Let_def)

text \<open>
  C1. When a call of \<^verbatim>\<open>changeSrc\<close> gets as far as creating a player, and the
  collection hands back the id \<open>P\<close>, the promise of that call is resolved only if a
  FIRST\_FRAME\_SHOWN event with payload id \<open>P\<close> is among the events delivered so far;
  as long as every delivered event carries another id the promise stays pending; and the
  listener, run on an event with another id, neither resolves nor rejects, whatever the
  promise was.
\<close>

theorem C1_changeSrc_resolves_only_on_its_own_first_frame:
  assumes "\<not> isDestroyed s" and "truthy_arg url"
    and "toStreamConfiguration env url = Inr c"
    and "\<not> documentHidden env"
    and "playerCreate env (iov_containerElement s) (iov_videoElement s) c = Inr P"
  shows "(promiseOf s' (result (changeSrc env s url)) evs = Resolved
            \<longrightarrow> (\<exists>ev \<in> set evs. payload_id ev = P)) \<and>
         ((\<forall>ev \<in> set evs. payload_id ev \<noteq> P) \<and> truthy P
            \<longrightarrow> promiseOf s' (result (changeSrc env s url)) evs = Pending) \<and>
         (payload_id ev \<noteq> P \<longrightarrow> firstFrameShownListener s' P ev p = (p, []))"
proof (intro conjI impI)
  assume r: "promiseOf s' (result (changeSrc env s url)) evs = Resolved"
  show "\<exists>ev \<in> set evs. payload_id ev = P"
  proof (cases "truthy P")
    case True
    with r assms have "deliver s' P evs Pending = Resolved"
      by (simp add: changeSrc_created)
    then show ?thesis
      using deliver_resolved_needs_match by blast
  next
    case False
    with r assms show ?thesis
      by (simp add: changeSrc_created)
  qed
next
  assume "(\<forall>ev \<in> set evs. payload_id ev \<noteq> P) \<and> truthy P"
  with assms show "promiseOf s' (result (changeSrc env s url)) evs = Pending"
    by (simp add: changeSrc_created deliver_other_ids)
next
  assume "payload_id ev \<noteq> P"
  then show "firstFrameShownListener s' P ev p = (p, [])"
    by (auto simp: firstFrameShownListener_def)
qed

text \<open>
  The property at work: stream b is requested, the collection creates player-7, and the
  first frame of the older player-6 arrives.
\<close>

theorem C1_stale_first_frame_witness:
  "\<not> isDestroyed s0 \<and> \<not> documentHidden env0 \<and>
   promiseOf s0 (result (changeSrc env0 s0 (Url ''clsp://sfs/stream-b'')))
     [\<lparr>payload_id = Str ''player-6'', destroyedAfterSleep = False\<rparr>] = Pending \<and>
   firstFrameShownListener s0 (Str ''player-7'')
     \<lparr>payload_id = Str ''player-6'', destroyedAfterSleep = False\<rparr> Pending = (Pending, [])"
proof -
  have h1: "\<not> isDestroyed s0" by (simp add: s0_def)
  have h2: "truthy_arg (Url ''clsp://sfs/stream-b'' :: string arg)" by simp
  have h3: "toStreamConfiguration env0 (Url ''clsp://sfs/stream-b'') = Inr ''clsp://sfs/stream-b''"
    by (simp add: env0_def fromUrl_spec_stream_b)
  have h4: "\<not> documentHidden env0" by (simp add: env0_def)
  have h5: "playerCreate env0 (iov_containerElement s0) (iov_videoElement s0) ''clsp://sfs/stream-b''
              = Inr (Str ''player-7'')"
    by (simp add: env0_def)
  show ?thesis
    using h1 h4
      C1_changeSrc_resolves_only_on_its_own_first_frame [OF h1 h2 h3 h4 h5,
        of s0 "[\<lparr>payload_id = Str ''player-6'', destroyedAfterSleep = False\<rparr>]"
           "\<lparr>payload_id = Str ''player-6'', destroyedAfterSleep = False\<rparr>" Pending]
    by simp
qed

subsection \<open>changeSrc on a destroyed session\<close>

text \<open>
  C2, as stated, fails: on a destroyed session \<^verbatim>\<open>changeSrc\<close> does not reject, it
  returns.
\<close>

theorem C2_changeSrc_on_destroyed_session_returns:
  "isDestroyed (s0\<lparr>isDestroyed := True\<rparr>) \<and>
   result (changeSrc env0 (s0\<lparr>isDestroyed := True\<rparr>) (Url ''clsp://sfs/stream-b'')) = Returned"
  by (simp add: changeSrc_def result_def)

text \<open>
  C2, amended. On a session whose \<open>isDestroyed\<close> is set, \<^verbatim>\<open>changeSrc\<close> with any
  argument returns normally: it writes one info line, changes nothing in the session and
  calls nothing.
\<close>

theorem C2_changeSrc_on_destroyed_session_is_a_logged_no_op:
  "isDestroyed s \<Longrightarrow>
     changeSrc env s url = (s, [Log LInfo ''Tried to changeSrc while destroyed''], Returned)"
  by (simp add: changeSrc_def)

text \<open>The amended property on a destroyed session, with no argument at all.\<close>

theorem C2_logged_no_op_witness:
  "isDestroyed (s0\<lparr>isDestroyed := True\<rparr>) \<and>
   changeSrc env0 (s0\<lparr>isDestroyed := True\<rparr>) Nil =
     (s0\<lparr>isDestroyed := True\<rparr>, [Log LInfo ''Tried to changeSrc while destroyed''], Returned)"
  using C2_changeSrc_on_destroyed_session_is_a_logged_no_op
          [of "s0\<lparr>isDestroyed := True\<rparr>" env0 Nil]
  by simp

subsection \<open>The online event\<close>

text \<open>
  No method of the session sleeps before the first-frame listener runs: the handler of
  the online event logs one line and goes straight into \<^verbatim>\<open>restart\<close>.
\<close>

lemma changeSrc_never_sleeps: "\<not> list_ex isSleep (actions (changeSrc env s url))"
  by (simp add: changeSrc_def actions_def Let_def split: sum.splits)

lemma stop_never_sleeps: "\<not> list_ex isSleep (actions (stop env s))"
  by (simp add: stop_def actions_def)

lemma onThrow_logs_never_sleep:
  "(\<And>e. \<not> list_ex isSleep (h e)) \<Longrightarrow> \<not> list_ex isSleep (onThrow out h)"
  by (cases out) simp_all

lemma restart_never_sleeps: "\<not> list_ex isSleep (actions (restart env s))"
proof (cases "isDestroyed s")
  case True
  then show ?thesis by (simp add: restart_def actions_def)
next
  case False
  obtain s1 t1 o1 where a: "stop env s = (s1, t1, o1)"
    by (cases "stop env s") auto
  obtain s2 t2 o2 where b: "changeSrc env s1 (arg_of (streamConfiguration s1)) = (s2, t2, o2)"
    by (cases "changeSrc env s1 (arg_of (streamConfiguration s1))") auto
  from a have "\<not> list_ex isSleep t1"
    using stop_never_sleeps [of env s] by (simp add: actions_def)
  moreover from b have "\<not> list_ex isSleep t2"
    using changeSrc_never_sleeps [of env s1 "arg_of (streamConfiguration s1)"]
    by (simp add: actions_def)
  ultimately show ?thesis
    using False a b by (simp add: restart_def actions_def onThrow_logs_never_sleep)
qed

lemma onConnectionChange_online:
  "onLine env \<Longrightarrow>
     actions (onConnectionChange env s) =
       Log LInfo ''Back online...'' # actions (restart env s)
         @ onThrow (result (restart env s))
             (\<lambda>e. [Log LError ''Error while trying to restart during online event'', LogE e])"
  by (simp add: onConnectionChange_def actions_def result_def split: prod.splits)

lemma onConnectionChange_online_never_sleeps:
  "onLine env \<Longrightarrow> \<not> list_ex isSleep (actions (onConnectionChange env s))"
  using restart_never_sleeps [of env s]
  by (simp add: onConnectionChange_online onThrow_logs_never_sleep)

text \<open>
  C3 does not hold of the handler. With the browser online and
  \<open>CONNECTION_CHANGE_PLAY_DELAY\<close> at its default of 5, the handler's actions are the
  log line followed at once by those of \<^verbatim>\<open>restart\<close>; there is no sleep among them.
\<close>

theorem C3_online_event_restarts_without_delay:
  "onLine env0 \<and> CONNECTION_CHANGE_PLAY_DELAY s0 = 5 \<and>
   actions (onConnectionChange env0 s0) =
     [Log LInfo ''Back online...'', Log LInfo ''Restart'', CollectionRemoveAll,
      Log LInfo ''Changing Stream...'',
      CollectionCreate (Some 2) (Some 1) ''clsp://sfs/stream-a'',
      ListenFirstFrame (Str ''player-7'')] \<and>
   \<not> list_ex isSleep (actions (onConnectionChange env0 s0))"
  by (simp add: onConnectionChange_def restart_def stop_def changeSrc_def actions_def
      stop_begin_def stop_finally_def env0_def s0_def)

subsection \<open>changeSrc while the document is hidden\<close>

text \<open>
  C8, as stated for every non-empty url, fails: the url is parsed before the document is
  looked at, so with a non-empty url that the parser rejects \<^verbatim>\<open>changeSrc\<close> throws
  the parser's error, on a hidden document too, and the session keeps the configuration
  it had.
\<close>

theorem C8_rejected_url_throws_while_document_hidden:
  "\<not> isDestroyed s0 \<and>
   truthy_arg (Url ''http://sfs/stream-b'' :: string arg) \<and>
   documentHidden (env0\<lparr>documentHidden := True\<rparr>) \<and>
   result (changeSrc (env0\<lparr>documentHidden := True\<rparr>) s0 (Url ''http://sfs/stream-b''))
     = Threw (Error ''InvalidUrl'') \<and>
   streamConfiguration (fst (changeSrc (env0\<lparr>documentHidden := True\<rparr>) s0 (Url ''http://sfs/stream-b'')))
     = Some ''clsp://sfs/stream-a''"
  by (simp add: changeSrc_def result_def env0_def s0_def fromUrl_spec_http)

text \<open>
  C8, amended. On a session that is not destroyed, with a non-empty argument that is a
  configuration or a url the parser accepts, giving the configuration \<open>c\<close>, and the
  document hidden, \<^verbatim>\<open>changeSrc\<close> returns normally, makes no call to create a player,
  and leaves the session with \<open>streamConfiguration = c\<close> and otherwise unchanged.
\<close>

theorem C8_changeSrc_while_document_hidden:
  assumes "\<not> isDestroyed s" and "truthy_arg url"
    and "toStreamConfiguration env url = Inr c"
    and "documentHidden env"
  shows "result (changeSrc env s url) = Returned \<and>
         \<not> list_ex isCollectionCreate (actions (changeSrc env s url)) \<and>
         fst (changeSrc env s url) = s\<lparr>streamConfiguration := Some c\<rparr>"
  using assms by (simp add: changeSrc_def result_def actions_def)

text \<open>The amended property at work: stream b is requested while the tab is hidden.\<close>

theorem C8_hidden_witness:
  "\<not> isDestroyed s0 \<and> documentHidden (env0\<lparr>documentHidden := True\<rparr>) \<and>
   result (changeSrc (env0\<lparr>documentHidden := True\<rparr>) s0 (Url ''clsp://sfs/stream-b'')) = Returned \<and>
   streamConfiguration (fst (changeSrc (env0\<lparr>documentHidden := True\<rparr>) s0 (Url ''clsp://sfs/stream-b'')))
     = Some ''clsp://sfs/stream-b''"
proof -
  have h1: "\<not> isDestroyed s0" by (simp add: s0_def)
  have h2: "truthy_arg (Url ''clsp://sfs/stream-b'' :: string arg)" by simp
  have h3: "toStreamConfiguration (env0\<lparr>documentHidden := True\<rparr>) (Url ''clsp://sfs/stream-b'')
              = Inr ''clsp://sfs/stream-b''"
    by (simp add: env0_def fromUrl_spec_stream_b)
  have h4: "documentHidden (env0\<lparr>documentHidden := True\<rparr>)" by simp
  show ?thesis
    using h1 h4 C8_changeSrc_while_document_hidden [OF h1 h2 h3 h4] by simp
qed

subsection \<open>changeSrc when the player cannot be created\<close>

text \<open>
  The retry path of the registry hands \<open>retryTarget\<close> of the failed session to the
  \<^verbatim>\<open>changeSrc\<close> of the replacement.
\<close>

lemma retry_reads_retryTarget:
  "has (collection w) (iov_id iov) = Inr True \<Longrightarrow>
   create env (w\<lparr>collection := fst (remove env (collection w) (iov_id iov))\<rparr>) cfg = (w2, t2, Inr newIov) \<Longrightarrow>
   fst (retry env w iov cfg) =
     w2\<lparr>collection := store (fst (changeSrc env newIov (arg_of (retryTarget iov)))) (collection w2)\<rparr>"
  by (auto simp: retry_def Let_def split: prod.splits)

text \<open>
  C10. On a session that is not destroyed, with a non-empty argument from which a
  configuration \<open>c\<close> is obtained and the document visible, if creating the player
  throws \<open>e\<close> then \<^verbatim>\<open>changeSrc\<close> throws \<open>e\<close>, and the session is left with
  \<open>streamConfiguration = c\<close>: the earlier configuration is not put back. With no
  pending configuration set, \<open>c\<close> is what the retry path of the registry reads.
\<close>

theorem C10_failed_player_creation_keeps_the_new_configuration:
  assumes "\<not> isDestroyed s" and "truthy_arg url"
    and "toStreamConfiguration env url = Inr c"
    and "\<not> documentHidden env"
    and "playerCreate env (iov_containerElement s) (iov_videoElement s) c = Inl e"
  shows "result (changeSrc env s url) = Threw e \<and>
         fst (changeSrc env s url) = s\<lparr>streamConfiguration := Some c\<rparr> \<and>
         (pendingChangeSrcStreamConfiguration s = None
            \<longrightarrow> retryTarget (fst (changeSrc env s url)) = Some c)"
  using assms by (simp add: changeSrc_def result_def retryTarget_def)

text \<open>
  The property at work: the session plays stream a, stream b is requested and the
  player cannot be created.
\<close>

theorem C10_failed_creation_witness:
  "\<not> isDestroyed s0 \<and> pendingChangeSrcStreamConfiguration s0 = None \<and>
   streamConfiguration s0 = Some ''clsp://sfs/stream-a'' \<and>
   result (changeSrc (env0\<lparr>playerCreate := (\<lambda>c v x. Inl (Error ''no transport''))\<rparr>) s0
             (Url ''clsp://sfs/stream-b'')) = Threw (Error ''no transport'') \<and>
   streamConfiguration (fst (changeSrc (env0\<lparr>playerCreate := (\<lambda>c v x. Inl (Error ''no transport''))\<rparr>) s0
             (Url ''clsp://sfs/stream-b''))) = Some ''clsp://sfs/stream-b'' \<and>
   retryTarget (fst (changeSrc (env0\<lparr>playerCreate := (\<lambda>c v x. Inl (Error ''no transport''))\<rparr>) s0
             (Url ''clsp://sfs/stream-b''))) = Some ''clsp://sfs/stream-b''"
proof -
  let ?env = "env0\<lparr>playerCreate := (\<lambda>c v x. Inl (Error ''no transport''))\<rparr>"
  have h1: "\<not> isDestroyed s0" by (simp add: s0_def)
  have h2: "truthy_arg (Url ''clsp://sfs/stream-b'' :: string arg)" by simp
  have h3: "toStreamConfiguration ?env (Url ''clsp://sfs/stream-b'') = Inr ''clsp://sfs/stream-b''"
    by (simp add: env0_def fromUrl_spec_stream_b)
  have h4: "\<not> documentHidden ?env" by (simp add: env0_def)
  have h5: "playerCreate ?env (iov_containerElement s0) (iov_videoElement s0) ''clsp://sfs/stream-b''
              = Inl (Error ''no transport'')"
    by simp
  have h6: "pendingChangeSrcStreamConfiguration s0 = None" by (simp add: s0_def)
  have h7: "streamConfiguration s0 = Some ''clsp://sfs/stream-a''" by (simp add: s0_def)
  show ?thesis
    using h1 h6 h7 C10_failed_player_creation_keeps_the_new_configuration [OF h1 h2 h3 h4 h5]
    by (simp add: retryTarget_def)
qed

subsection \<open>The flags of a session\<close>

text \<open>
  No method of the session writes \<open>isDestroyed\<close>, \<open>isDestroyComplete\<close> or
  \<open>pendingChangeSrcStreamConfiguration\<close>; \<open>isStopping\<close> is written by
  \<^verbatim>\<open>stop\<close> alone.
\<close>

lemma changeSrc_flags:
  "isDestroyed (fst (changeSrc env s url)) = isDestroyed s"
  "isDestroyComplete (fst (changeSrc env s url)) = isDestroyComplete s"
  "isStopping (fst (changeSrc env s url)) = isStopping s"
  "pendingChangeSrcStreamConfiguration (fst (changeSrc env s url)) = pendingChangeSrcStreamConfiguration s"
  by (simp_all add: changeSrc_def Let_def split: sum.splits)

lemma stop_flags:
  "isDestroyed (fst (stop env s)) = isDestroyed s"
  "isDestroyComplete (fst (stop env s)) = isDestroyComplete s"
  "pendingChangeSrcStreamConfiguration (fst (stop env s)) = pendingChangeSrcStreamConfiguration s"
  by (simp_all add: stop_def stop_begin_def stop_finally_def)

lemma stop_isStopping: "isStopping (fst (stop env s)) \<Longrightarrow> isStopping s"
  by (simp add: stop_def stop_begin_def stop_finally_def split: if_splits)

lemma restart_state:
  "fst (restart env s) =
     (if isDestroyed s then s
      else fst (changeSrc env (fst (stop env s)) (arg_of (streamConfiguration (fst (stop env s))))))"
  by (simp add: restart_def split: prod.splits)

lemma restart_flags:
  "isDestroyed (fst (restart env s)) = isDestroyed s"
  "isDestroyComplete (fst (restart env s)) = isDestroyComplete s"
  "pendingChangeSrcStreamConfiguration (fst (restart env s)) = pendingChangeSrcStreamConfiguration s"
  by (simp_all add: restart_state changeSrc_flags stop_flags)

lemma restart_isStopping: "isStopping (fst (restart env s)) \<Longrightarrow> isStopping s"
  by (cases "isDestroyed s") (auto simp: restart_state changeSrc_flags dest: stop_isStopping)

lemma onConnectionChange_state:
  "fst (onConnectionChange env s) = (if onLine env then fst (restart env s) else fst (stop env s))"
  by (simp add: onConnectionChange_def split: prod.splits)

lemma onVisibilityChange_state:
  "fst (onVisibilityChange env s) =
     (if documentHidden env then fst (stop env s) else fst (restart env s))"
  by (simp add: onVisibilityChange_def split: prod.splits)

lemma iov_destroy_state:
  "fst (iov_destroy env s) =
     (let s2 = (fst (stop env s))\<lparr>streamConfiguration := None\<rparr>
      in case uninitializeElements s2 of Inl e \<Rightarrow> s2 | Inr s3 \<Rightarrow> s3\<lparr>iov_config := None\<rparr>)"
  by (cases "stop env s") (simp add: iov_destroy_def Let_def split: sum.splits)

lemma iov_destroy_flags:
  "isDestroyed (fst (iov_destroy env s)) = isDestroyed (fst (stop env s))"
  "isDestroyComplete (fst (iov_destroy env s)) = isDestroyComplete (fst (stop env s))"
  "isStopping (fst (iov_destroy env s)) = isStopping (fst (stop env s))"
  "pendingChangeSrcStreamConfiguration (fst (iov_destroy env s))
     = pendingChangeSrcStreamConfiguration (fst (stop env s))"
  by (simp_all add: iov_destroy_state uninitializeElements_def Let_def)

lemma srun_flags:
  "isDestroyed (srun env s op) = isDestroyed s"
  "isDestroyComplete (srun env s op) = isDestroyComplete s"
  "pendingChangeSrcStreamConfiguration (srun env s op) = pendingChangeSrcStreamConfiguration s"
  by (cases op; simp add: changeSrc_flags stop_flags restart_flags onConnectionChange_state
        onVisibilityChange_state iov_destroy_flags)+

lemma srun_isStopping: "isStopping (srun env s op) \<Longrightarrow> isStopping s"
  by (cases op)
     (auto simp: changeSrc_flags onConnectionChange_state onVisibilityChange_state
        iov_destroy_flags split: if_splits dest: stop_isStopping restart_isStopping)

lemma sexec_flags:
  "isDestroyed (sexec ops s) = isDestroyed s \<and>
   isDestroyComplete (sexec ops s) = isDestroyComplete s \<and>
   pendingChangeSrcStreamConfiguration (sexec ops s) = pendingChangeSrcStreamConfiguration s"
proof (induction ops arbitrary: s)
  case Nil
  then show ?case by simp
next
  case (Cons a ops)
  obtain env op where a: "a = (env, op)" by (cases a)
  show ?case
    using Cons [of "srun env s op"] by (simp add: a srun_flags)
qed

lemma sexec_isStopping: "isStopping (sexec ops s) \<Longrightarrow> isStopping s"
proof (induction ops arbitrary: s)
  case Nil
  then show ?case by simp
next
  case (Cons a ops)
  obtain env op where a: "a = (env, op)" by (cases a)
  from Cons.prems have "isStopping (sexec ops (srun env s op))" by (simp add: a)
  then have "isStopping (srun env s op)" by (rule Cons.IH)
  then show ?case by (rule srun_isStopping)
qed

text \<open>
  C9, as stated, fails for \<open>isStopping\<close>: \<^verbatim>\<open>stop\<close> raises it while it waits for
  the players to be removed and lowers it again before it returns.
\<close>

theorem C9_stop_lowers_isStopping_again:
  "isStopping (stop_begin s0) \<and>
   fst (stop env0 s0) = stop_finally (stop_begin s0) \<and>
   \<not> isStopping (fst (stop env0 s0))"
  by (simp add: stop_def stop_begin_def stop_finally_def s0_def)

text \<open>
  C9, amended. Through any sequence of the session's methods (\<^verbatim>\<open>changeSrc\<close>,
  \<^verbatim>\<open>stop\<close>, \<^verbatim>\<open>restart\<close>, the two environment handlers, \<^verbatim>\<open>_destroy\<close>)
  \<open>isDestroyed\<close> and \<open>isDestroyComplete\<close> keep their values, so neither is ever
  set back to false. \<open>isStopping\<close> is not monotonic: it is set after a sequence of
  methods only if it was set before, and a \<^verbatim>\<open>stop\<close> that finds it clear on a session
  not yet destroyed sets it for the time of the teardown and clears it again.
\<close>

theorem C9_destruction_flags_are_never_lowered:
  "isDestroyed (sexec ops s) = isDestroyed s \<and>
   isDestroyComplete (sexec ops s) = isDestroyComplete s \<and>
   (isStopping (sexec ops s) \<longrightarrow> isStopping s) \<and>
   (\<not> isDestroyComplete s \<and> \<not> isStopping s \<longrightarrow>
      isStopping (stop_begin s) \<and> \<not> isStopping (fst (stop env s)))"
proof -
  have "\<not> isDestroyComplete s \<and> \<not> isStopping s \<longrightarrow>
      isStopping (stop_begin s) \<and> \<not> isStopping (fst (stop env s))"
    by (simp add: stop_def stop_begin_def stop_finally_def)
  then show ?thesis
    using sexec_isStopping [of ops s] by (simp add: sexec_flags)
qed

text \<open>
  The amended property at work: a \<^verbatim>\<open>stop\<close> that finds another one in flight, a
  \<^verbatim>\<open>stop\<close> on an idle session, and two methods on a destroyed session.
\<close>

theorem C9_flags_witness:
  "isStopping (sexec [(env0, Stop)] (s0\<lparr>isStopping := True\<rparr>)) \<and>
   isStopping (s0\<lparr>isStopping := True\<rparr>) \<and>
   \<not> isDestroyComplete s0 \<and> \<not> isStopping s0 \<and>
   isStopping (stop_begin s0) \<and> \<not> isStopping (fst (stop env0 s0)) \<and>
   isDestroyed (sexec [(env0, Stop), (env0, Restart)] (s0\<lparr>isDestroyed := True\<rparr>))"
proof -
  have a: "isStopping (sexec [(env0, Stop)] (s0\<lparr>isStopping := True\<rparr>))"
    by (simp add: stop_def s0_def)
  have b: "\<not> isDestroyComplete s0 \<and> \<not> isStopping s0"
    by (simp add: s0_def)
  show ?thesis
    using a b
      C9_destruction_flags_are_never_lowered [of "[(env0, Stop)]" "s0\<lparr>isStopping := True\<rparr>" env0]
      C9_destruction_flags_are_never_lowered
        [of "[(env0, Stop), (env0, Restart)]" "s0\<lparr>isDestroyed := True\<rparr>" env0]
      C9_destruction_flags_are_never_lowered [of "[]" s0 env0]
    by simp
qed

section \<open>Properties of the registry\<close>

subsection \<open>has, get and remove on one registry\<close>

lemma set_keys: "set (keys r) = held r"
  by (simp add: held_def split: option.splits)

lemma map_of_None_held: "iovs r = Some m \<Longrightarrow> (map_of m i = None) = (i \<notin> held r)"
  by (simp add: held_def map_of_eq_None_iff)

lemma has_live:
  "pendingRemoval r = Some p \<Longrightarrow> iovs r = Some m \<Longrightarrow>
     has r i = Inr (i \<noteq> 0 \<and> i \<notin> p \<and> i \<in> held r)"
  by (auto simp: has_def held_def map_of_eq_None_iff)

lemma has_dead:
  "pendingRemoval r = None \<Longrightarrow>
     has r i = (if i = 0 then Inr False else Inl (TypeError ''Cannot read properties of null''))"
  by (simp add: has_def)

lemma get_live:
  "pendingRemoval r = Some p \<Longrightarrow> iovs r = Some m \<Longrightarrow>
     get r i = Inr (if i \<noteq> 0 \<and> i \<notin> p then map_of m i else None)"
  by (cases "map_of m i") (auto simp: get_def has_def split: bool.splits)

lemma get_dead:
  "pendingRemoval r = None \<Longrightarrow>
     get r i = (if i = 0 then Inr None else Inl (TypeError ''Cannot read properties of null''))"
  by (simp add: get_def has_dead)

lemma last_remove_steps:
  "fst (last (remove_steps env r i)) =
     r\<lparr>iovs := map_option (AList.delete i) (iovs r),
       pendingRemoval := map_option (\<lambda>p. p - {i}) (map_option (insert i) (pendingRemoval r))\<rparr>"
  by (simp add: remove_steps_def Let_def)

lemma remove_live:
  assumes "pendingRemoval r = Some p" and "iovs r = Some m"
  shows "fst (remove env r i) =
           (if i \<noteq> 0 \<and> i \<notin> p \<and> i \<in> held r
            then r\<lparr>iovs := Some (AList.delete i m), pendingRemoval := Some p\<rparr>
            else r)"
proof (cases "i \<noteq> 0 \<and> i \<notin> p \<and> i \<in> held r")
  case True
  then have "map_of m i \<noteq> None"
    using assms by (simp add: map_of_None_held)
  then obtain v where v: "map_of m i = Some v" by blast
  with True assms show ?thesis
    by (simp add: remove_def get_live last_remove_steps)
next
  case False
  then have "map_of m i = None \<or> i = 0 \<or> i \<in> p"
    using assms by (auto simp: map_of_None_held)
  with False assms show ?thesis
    by (auto simp: remove_def get_live)
qed

lemma remove_dead:
  "pendingRemoval r = None \<Longrightarrow> fst (remove env r i) = r"
  by (simp add: remove_def get_dead)

lemma held_delete:
  "iovs r = Some m \<Longrightarrow> held (r\<lparr>iovs := Some (AList.delete i m), pendingRemoval := q\<rparr>) = held r - {i}"
  by (auto simp: held_def AList.delete_eq)

lemma remove_held:
  "held (fst (remove env r i)) \<subseteq> held r"
proof (cases "pendingRemoval r")
  case None
  then show ?thesis by (simp add: remove_dead)
next
  case (Some p)
  show ?thesis
  proof (cases "iovs r")
    case None
    then have "fst (remove env r i) = r"
      by (simp add: remove_def get_def has_def Some split: sum.splits bool.splits)
    then show ?thesis by simp
  next
    case (Some m)
    with \<open>pendingRemoval r = Some p\<close> show ?thesis
      by (auto simp: remove_live held_delete)
  qed
qed

lemma remove_flags:
  "isDestroyedC (fst (remove env r i)) = isDestroyedC r \<and>
   isDestroyCompleteC (fst (remove env r i)) = isDestroyCompleteC r \<and>
   (iovs (fst (remove env r i)) = None \<longleftrightarrow> iovs r = None) \<and>
   (pendingRemoval (fst (remove env r i)) = None \<longleftrightarrow> pendingRemoval r = None)"
  by (auto simp: remove_def last_remove_steps split: sum.splits option.splits)

subsection \<open>create, destroy and the retry path\<close>

lemma increment_bounds: "0 < increment n \<and> n \<le> increment n"
  by (simp add: increment_def)

lemma increment_fresh: "i < 2 ^ 53 \<Longrightarrow> i \<le> n \<Longrightarrow> increment n \<noteq> i"
  by (simp add: increment_def)

lemma Iov_factory_id: "Iov_factory env i cfg = Inr iov \<Longrightarrow> iov_id iov = i"
  by (auto simp: Iov_factory_def split: if_splits option.splits sum.splits)

lemma changeSrc_id: "iov_id (fst (changeSrc env s url)) = iov_id s"
  by (simp add: changeSrc_def Let_def split: sum.splits)

lemma add_Inr:
  "add r iov = Inr (r', t) \<Longrightarrow>
     \<exists>m. iovs r = Some m \<and> r' = r\<lparr>iovs := Some (AList.update (iov_id iov) iov m)\<rparr>"
  by (auto simp: add_def Let_def split: if_splits sum.splits bool.splits option.splits)

lemma create_count: "totalIovCount (fst (create env w cfg)) = increment (totalIovCount w)"
  by (simp add: create_def Let_def split: sum.splits option.splits prod.splits)

lemma create_Inl:
  "result (create env w cfg) = Inl e \<Longrightarrow> collection (fst (create env w cfg)) = collection w"
  by (auto simp: create_def result_def Let_def split: sum.splits option.splits prod.splits)

lemma create_Inr:
  assumes "result (create env w cfg) = Inr iov"
  shows "iov_id iov = increment (totalIovCount w) \<and>
         (\<exists>m. iovs (collection w) = Some m \<and>
              collection (fst (create env w cfg)) =
                (collection w)\<lparr>iovs := Some (AList.update (iov_id iov) iov m)\<rparr>)"
proof -
  from assms have f: "Iov_factory env (increment (totalIovCount w)) cfg = Inr iov"
    by (auto simp: create_def result_def Let_def split: sum.splits option.splits prod.splits)
  from assms f obtain r t where a: "add (collection w) iov = Inr (r, t)"
    and c: "collection (fst (create env w cfg)) = r"
    by (auto simp: create_def result_def Let_def split: sum.splits option.splits prod.splits)
  from add_Inr [OF a] c Iov_factory_id [OF f] show ?thesis by auto
qed

lemma held_update:
  "iovs r = Some m \<Longrightarrow> held (r\<lparr>iovs := Some (AList.update k v m)\<rparr>) = insert k (held r)"
  by (simp add: held_def AList.dom_update)

lemma create_held:
  "held (collection (fst (create env w cfg)))
     \<subseteq> insert (increment (totalIovCount w)) (held (collection w))"
proof (cases "result (create env w cfg)")
  case (Inl e)
  then show ?thesis by (auto simp: create_Inl)
next
  case (Inr iov)
  from create_Inr [OF Inr] show ?thesis
    by (auto simp: held_update)
qed

lemma create_shape:
  "isDestroyedC (collection (fst (create env w cfg))) = isDestroyedC (collection w) \<and>
   isDestroyCompleteC (collection (fst (create env w cfg))) = isDestroyCompleteC (collection w) \<and>
   (iovs (collection (fst (create env w cfg))) = None \<longleftrightarrow> iovs (collection w) = None) \<and>
   pendingRemoval (collection (fst (create env w cfg))) = pendingRemoval (collection w)"
proof (cases "result (create env w cfg)")
  case (Inl e)
  then show ?thesis by (simp add: create_Inl)
next
  case (Inr iov)
  from create_Inr [OF Inr] show ?thesis by auto
qed

lemma remove_pending:
  "pendingRemoval (fst (remove env r i)) = pendingRemoval r \<or>
   (\<exists>p. pendingRemoval r = Some p \<and> pendingRemoval (fst (remove env r i)) = Some (p - {i}))"
  by (auto simp: remove_def last_remove_steps split: sum.splits option.splits)

lemma remove_each_held: "held (fst (remove_each env ids r)) \<subseteq> held r"
proof (induction ids arbitrary: r)
  case Nil
  then show ?case by simp
next
  case (Cons i ids)
  have "held (fst (remove_each env ids (fst (remove env r i)))) \<subseteq> held (fst (remove env r i))"
    by (rule Cons.IH)
  also have "\<dots> \<subseteq> held r" by (rule remove_held)
  finally show ?case
    by (simp add: split_def Let_def)
qed

lemma destroy_state:
  "fst (destroy env r) =
     (if isDestroyedC r then r
      else (fst (remove_each env (keys (r\<lparr>isDestroyedC := True\<rparr>)) (r\<lparr>isDestroyedC := True\<rparr>)))
             \<lparr>iovs := None, pendingRemoval := None, isDestroyCompleteC := True\<rparr>)"
  by (simp add: destroy_def split_def Let_def del: keys.simps)

lemma remove_each_destroyed:
  "isDestroyedC (fst (remove_each env ids r)) = isDestroyedC r"
proof (induction ids arbitrary: r)
  case Nil
  then show ?case by simp
next
  case (Cons i ids)
  show ?case
    using Cons.IH [of "fst (remove env r i)"] remove_flags [of env r i]
    by (simp add: split_def Let_def)
qed

lemma destroy_shape:
  "\<not> isDestroyedC r \<Longrightarrow>
     iovs (fst (destroy env r)) = None \<and> pendingRemoval (fst (destroy env r)) = None \<and>
     isDestroyedC (fst (destroy env r)) \<and> isDestroyCompleteC (fst (destroy env r))"
  by (simp add: destroy_state remove_each_destroyed del: keys.simps)

lemma store_shape:
  "isDestroyedC (store s r) = isDestroyedC r \<and>
   isDestroyCompleteC (store s r) = isDestroyCompleteC r \<and>
   (iovs (store s r) = None \<longleftrightarrow> iovs r = None) \<and>
   pendingRemoval (store s r) = pendingRemoval r"
  by (simp add: store_def)

lemma store_held: "held (store s r) \<subseteq> insert (iov_id s) (held r)"
  by (auto simp: store_def held_def AList.dom_update split: option.splits)

lemma retry_state:
  "fst (retry env w iov cfg) =
     (if has (collection w) (iov_id iov) = Inr True then
        (let c = create env (w\<lparr>collection := fst (remove env (collection w) (iov_id iov))\<rparr>) cfg
         in case result c of
              Inl e \<Rightarrow> fst c
            | Inr newIov \<Rightarrow>
                (fst c)\<lparr>collection :=
                   store (fst (changeSrc env newIov (arg_of (retryTarget iov)))) (collection (fst c))\<rparr>)
      else w)"
  by (auto simp: retry_def result_def Let_def split: sum.splits bool.splits prod.splits)

subsection \<open>What every operation preserves\<close>

lemma wf_alt:
  "wf w \<longleftrightarrow> (\<forall>k \<in> held (collection w). 0 < k) \<and> shape (collection w)"
  unfolding wf_def list_all_iff set_keys by simp

lemma counted_alt:
  "counted w \<longleftrightarrow> (\<forall>k \<in> held (collection w). k \<le> totalIovCount w)"
  unfolding counted_def list_all_iff set_keys by simp

lemma remove_shape: "shape r \<Longrightarrow> shape (fst (remove env r i))"
  using remove_flags [of env r i] by (auto simp: shape_def live_def)

lemma create_keeps_shape: "shape (collection w) \<Longrightarrow> shape (collection (fst (create env w cfg)))"
  using create_shape [of env w cfg] by (auto simp: shape_def live_def)

lemma store_keeps_shape: "shape r \<Longrightarrow> shape (store s r)"
  using store_shape [of s r] by (auto simp: shape_def live_def)

lemma destroy_keeps_shape: "shape r \<Longrightarrow> shape (fst (destroy env r))"
proof (cases "isDestroyedC r")
  case True
  assume "shape r"
  with True show ?thesis by (simp add: destroy_state del: keys.simps)
next
  case False
  from destroy_shape [OF False, of env] show ?thesis by (simp add: shape_def)
qed

lemma destroy_held: "held (fst (destroy env r)) \<subseteq> held r"
proof (cases "isDestroyedC r")
  case True
  then show ?thesis by (simp add: destroy_state del: keys.simps)
next
  case False
  from destroy_shape [OF False, of env] show ?thesis by (simp add: held_def)
qed

lemma add_nonzero: "add r iov = Inr (r', t) \<Longrightarrow> iov_id iov \<noteq> 0"
  by (auto simp: add_def Let_def split: if_splits)

lemma add_held:
  assumes "add r iov = Inr (r', t)"
  shows "held r' = insert (iov_id iov) (held r)"
proof -
  from add_Inr [OF assms] obtain m where "iovs r = Some m"
    and "r' = r\<lparr>iovs := Some (AList.update (iov_id iov) iov m)\<rparr>"
    by blast
  then show ?thesis by (simp add: held_update)
qed

lemma add_keeps_shape:
  assumes "add r iov = Inr (r', t)" and "shape r"
  shows "shape r'"
proof -
  from add_Inr [OF assms(1)] obtain m where "iovs r = Some m"
    and "r' = r\<lparr>iovs := Some (AList.update (iov_id iov) iov m)\<rparr>"
    by blast
  with assms(2) show ?thesis by (auto simp: shape_def live_def)
qed

lemma create_grows: "grows {} w (fst (create env w cfg))"
  using create_held [of env w cfg] by (simp add: grows_def create_count)

lemma retry_grows: "grows {} w (fst (retry env w iov cfg))"
proof (cases "has (collection w) (iov_id iov) = Inr True")
  case False
  then show ?thesis by (simp add: retry_state grows_def)
next
  case True
  let ?w1 = "w\<lparr>collection := fst (remove env (collection w) (iov_id iov))\<rparr>"
  let ?c = "create env ?w1 cfg"
  have h1: "held (collection ?w1) \<subseteq> held (collection w)"
    using remove_held [of env "collection w" "iov_id iov"] by simp
  have cnt: "totalIovCount (fst ?c) = increment (totalIovCount w)"
    by (simp add: create_count)
  have h2: "held (collection (fst ?c)) \<subseteq> insert (increment (totalIovCount w)) (held (collection w))"
    using create_held [of env ?w1 cfg] h1 by auto
  show ?thesis
  proof (cases "result ?c")
    case (Inl e)
    with True cnt h2 show ?thesis
      by (simp add: retry_state grows_def Let_def)
  next
    case (Inr newIov)
    let ?s = "fst (changeSrc env newIov (arg_of (retryTarget iov)))"
    from create_Inr [OF Inr] have "iov_id ?s = increment (totalIovCount w)"
      by (simp add: changeSrc_id)
    with store_held [of ?s "collection (fst ?c)"] h2
    have "held (store ?s (collection (fst ?c)))
            \<subseteq> insert (increment (totalIovCount w)) (held (collection w))"
      by auto
    with True Inr cnt show ?thesis
      by (simp add: retry_state grows_def Let_def)
  qed
qed

lemma add_grows: "grows (added (Add iov)) w (run env w (Add iov))"
proof (cases "add (collection w) iov")
  case (Inl e)
  then show ?thesis by (simp add: grows_def)
next
  case (Inr x)
  obtain r t where x: "x = (r, t)" by (cases x)
  from Inr x have a: "add (collection w) iov = Inr (r, t)" by simp
  from add_held [OF a] add_nonzero [OF a] Inr x show ?thesis
    by (simp add: grows_def)
qed

lemma retry_keeps_shape:
  "shape (collection w) \<Longrightarrow> shape (collection (fst (retry env w iov cfg)))"
proof -
  assume s: "shape (collection w)"
  let ?w1 = "w\<lparr>collection := fst (remove env (collection w) (iov_id iov))\<rparr>"
  have "shape (collection ?w1)" using s by (simp add: remove_shape)
  then have c: "shape (collection (fst (create env ?w1 cfg)))"
    by (rule create_keeps_shape)
  show ?thesis
    using s c by (simp add: retry_state Let_def store_keeps_shape split: sum.splits)
qed

lemma run_grows: "grows (added op) w (run env w op)"
proof (cases op)
  case (Create cfg)
  then show ?thesis by (simp add: create_grows)
next
  case (Add iov)
  then show ?thesis by (simp only: add_grows)
next
  case (Remove i)
  then show ?thesis
    using remove_held [of env "collection w" i] by (simp add: grows_def)
next
  case Destroy
  then show ?thesis
    using destroy_held [of env "collection w"] by (simp add: grows_def)
next
  case (Retry i cfg)
  show ?thesis
  proof (cases "get (collection w) i")
    case (Inl e)
    with Retry show ?thesis by (simp add: grows_def)
  next
    case (Inr x)
    with Retry show ?thesis
      by (cases x) (simp_all add: grows_def retry_grows [unfolded grows_def, simplified])
  qed
qed

lemma run_keeps_shape: "shape (collection w) \<Longrightarrow> shape (collection (run env w op))"
proof (cases op)
  case (Create cfg)
  assume "shape (collection w)"
  with Create show ?thesis by (simp add: create_keeps_shape)
next
  case (Add iov)
  assume "shape (collection w)"
  with Add show ?thesis
    by (auto split: sum.splits dest: add_keeps_shape)
next
  case (Remove i)
  assume "shape (collection w)"
  with Remove show ?thesis by (simp add: remove_shape)
next
  case Destroy
  assume "shape (collection w)"
  with Destroy show ?thesis by (simp add: destroy_keeps_shape)
next
  case (Retry i cfg)
  assume "shape (collection w)"
  with Retry show ?thesis
    by (simp add: retry_keeps_shape split: sum.splits option.splits)
qed

lemma added_positive: "k \<in> added op \<Longrightarrow> 0 < k"
  by (cases op) (auto split: if_splits)

lemma wf_run: "wf w \<Longrightarrow> wf (run env w op)"
proof -
  assume w: "wf w"
  have g: "grows (added op) w (run env w op)" by (rule run_grows)
  have "\<forall>k \<in> held (collection (run env w op)). 0 < k"
  proof
    fix k assume k: "k \<in> held (collection (run env w op))"
    from g k have "k \<in> held (collection w) \<or> k \<in> added op \<or> k = increment (totalIovCount w)"
      by (auto simp: grows_def)
    with w increment_bounds [of "totalIovCount w"] show "0 < k"
      by (auto simp: wf_alt dest: added_positive)
  qed
  with w show ?thesis
    by (simp add: wf_alt run_keeps_shape)
qed

lemma wf_exec: "wf w \<Longrightarrow> wf (exec ops w)"
proof (induction ops arbitrary: w)
  case Nil
  then show ?case by simp
next
  case (Cons a ops)
  obtain env op where a: "a = (env, op)" by (cases a)
  from Cons.prems have "wf (run env w op)" by (rule wf_run)
  then have "wf (exec ops (run env w op))" by (rule Cons.IH)
  then show ?case by (simp add: a)
qed

lemma wf_initial: "wf initial"
  by (simp add: wf_def shape_def initial_def factory_def live_def)

text \<open>
  As long as \<^verbatim>\<open>add\<close> is not handed an id the counter has yet to reach, every id held
  has been handed out by the counter.
\<close>

lemma counted_run:
  assumes "counted w" and "\<forall>k \<in> added op. k \<le> totalIovCount w"
  shows "counted (run env w op)"
proof -
  have g: "grows (added op) w (run env w op)" by (rule run_grows)
  have "\<forall>k \<in> held (collection (run env w op)). k \<le> totalIovCount (run env w op)"
  proof
    fix k assume k: "k \<in> held (collection (run env w op))"
    have old: "k \<in> held (collection w) \<Longrightarrow> k \<le> totalIovCount w"
      using assms(1) by (simp add: counted_alt)
    from g k old assms(2) increment_bounds [of "totalIovCount w"]
    show "k \<le> totalIovCount (run env w op)"
      by (fastforce simp: grows_def)
  qed
  then show ?thesis by (simp add: counted_alt)
qed

text \<open>
  An id below \<open>2 ^ 53\<close> that the counter has passed and that is not held stays out, as
  long as \<^verbatim>\<open>add\<close> is not handed that very id.
\<close>

lemma exec_keeps_absent:
  "i < 2 ^ 53 \<Longrightarrow> i \<le> totalIovCount w \<Longrightarrow> i \<notin> held (collection w)
     \<Longrightarrow> \<forall>x \<in> set ops. i \<notin> added (snd x)
     \<Longrightarrow> i \<notin> held (collection (exec ops w))"
proof (induction ops arbitrary: w)
  case Nil
  then show ?case by simp
next
  case (Cons a ops)
  obtain env op where a: "a = (env, op)" by (cases a)
  have g: "grows (added op) w (run env w op)" by (rule run_grows)
  from Cons.prems(4) have na: "i \<notin> added op" and rest: "\<forall>x \<in> set ops. i \<notin> added (snd x)"
    by (simp_all add: a)
  from g Cons.prems increment_bounds [of "totalIovCount w"]
  have 1: "i \<le> totalIovCount (run env w op)"
    by (auto simp: grows_def)
  from g na Cons.prems(1-3) increment_fresh [of i "totalIovCount w"]
  have 2: "i \<notin> held (collection (run env w op))"
    by (auto simp: grows_def)
  from Cons.IH [OF Cons.prems(1) 1 2 rest] show ?case by (simp add: a)
qed

lemma wf_w1: "wf w1"
  by (simp add: wf_def shape_def live_def w1_def)

subsection \<open>remove\<close>

lemma remove_absent:
  assumes "pendingRemoval r = Some p" and "iovs r = Some m" and "has r i = Inr False"
  shows "remove env r i = (r, [], Inr Void)"
proof -
  from assms have "i = 0 \<or> i \<in> p \<or> map_of m i = None"
    by (auto simp: has_def split: if_splits)
  with assms show ?thesis
    by (auto simp: remove_def get_live)
qed

lemma remove_steps_present:
  assumes "pendingRemoval r = Some p" and "iovs r = Some m" and "has r i = Inr True"
  shows "remove_steps env r i =
           [(r\<lparr>pendingRemoval := Some (insert i p)\<rparr>, []),
            (r\<lparr>pendingRemoval := Some (insert i p), iovs := Some (AList.delete i m)\<rparr>, []),
            (r\<lparr>pendingRemoval := Some (insert i p), iovs := Some (AList.delete i m)\<rparr>,
             [Log LInfo ''IovCollection - removing iov...'', IovDestroy i])]
           @ (case iovDestroyOutcome env i of
                None \<Rightarrow> []
              | Some e \<Rightarrow>
                  [(r\<lparr>pendingRemoval := Some (insert i p), iovs := Some (AList.delete i m)\<rparr>,
                    [LogN LError ''Error destroying Iov ${id} while removing'' i, LogE e])])
           @ [(r\<lparr>pendingRemoval := Some p, iovs := Some (AList.delete i m)\<rparr>, [])]"
proof -
  from assms have "i \<notin> p" by (auto simp: has_def split: if_splits)
  then have "insert i p - {i} = p" by auto
  with assms show ?thesis
    by (simp add: remove_steps_def Let_def split: option.splits)
qed

lemma remove_present:
  assumes "pendingRemoval r = Some p" and "iovs r = Some m" and "has r i = Inr True"
  shows "remove env r i =
           (r\<lparr>pendingRemoval := Some p, iovs := Some (AList.delete i m)\<rparr>,
            [Log LInfo ''IovCollection - removing iov...'', IovDestroy i]
            @ (case iovDestroyOutcome env i of
                 None \<Rightarrow> []
               | Some e \<Rightarrow> [LogN LError ''Error destroying Iov ${id} while removing'' i, LogE e]),
            Inr (case iovDestroyOutcome env i of None \<Rightarrow> This | Some e \<Rightarrow> Void))"
proof -
  from assms have "map_of m i \<noteq> None \<and> i \<noteq> 0 \<and> i \<notin> p"
    by (auto simp: has_def split: if_splits)
  then obtain v where v: "map_of m i = Some v" and i: "i \<noteq> 0 \<and> i \<notin> p" by blast
  from assms v i have g: "get r i = Inr (Some v)" by (simp add: get_live)
  show ?thesis
    unfolding remove_def g remove_steps_present [OF assms]
    by (simp split: option.splits)
qed

lemma remove_twice:
  assumes "pendingRemoval r = Some p" and "iovs r = Some m"
  shows "remove env' (fst (remove env r i)) i = (fst (remove env r i), [], Inr Void)"
proof -
  let ?r = "fst (remove env r i)"
  from assms have "held ?r \<subseteq> held r - {i} \<or> (?r = r \<and> \<not> (i \<noteq> 0 \<and> i \<notin> p \<and> i \<in> held r))"
    by (auto simp: remove_live held_delete)
  moreover from assms obtain q m' where q: "pendingRemoval ?r = Some q" and m': "iovs ?r = Some m'"
    using remove_flags [of env r i] by auto
  moreover from assms q have "q = p" by (auto simp: remove_live split: if_splits)
  ultimately have "has ?r i = Inr False"
    by (auto simp: has_live)
  from remove_absent [OF q m' this] show ?thesis .
qed

text \<open>
  C5, amended. On a registry that still has its two dictionaries: \<^verbatim>\<open>remove(i)\<close> for
  an id that \<^verbatim>\<open>has\<close> does not report changes nothing, does nothing and returns
  normally; a second \<^verbatim>\<open>remove(i)\<close> after a first one is such a call; and for an id
  that \<^verbatim>\<open>has\<close> reports, \<^verbatim>\<open>remove(i)\<close> marks \<open>i\<close> in \<open>pendingRemoval\<close>, then
  deletes it from \<open>iovs\<close>, then calls \<^verbatim>\<open>destroy()\<close> on the session, then (only if
  that threw) logs the error, then clears the mark; it returns normally in either case.
\<close>

theorem C5_remove_marks_deletes_destroys_clears:
  assumes "pendingRemoval r = Some p" and "iovs r = Some m"
  shows "(has r i = Inr False \<longrightarrow> remove env r i = (r, [], Inr Void)) \<and>
         remove env' (fst (remove env r i)) i = (fst (remove env r i), [], Inr Void) \<and>
         (has r i = Inr True \<longrightarrow>
            remove_steps env r i =
              [(r\<lparr>pendingRemoval := Some (insert i p)\<rparr>, []),
               (r\<lparr>pendingRemoval := Some (insert i p), iovs := Some (AList.delete i m)\<rparr>, []),
               (r\<lparr>pendingRemoval := Some (insert i p), iovs := Some (AList.delete i m)\<rparr>,
                [Log LInfo ''IovCollection - removing iov...'', IovDestroy i])]
              @ (case iovDestroyOutcome env i of
                   None \<Rightarrow> []
                 | Some e \<Rightarrow>
                     [(r\<lparr>pendingRemoval := Some (insert i p), iovs := Some (AList.delete i m)\<rparr>,
                       [LogN LError ''Error destroying Iov ${id} while removing'' i, LogE e])])
              @ [(r\<lparr>pendingRemoval := Some p, iovs := Some (AList.delete i m)\<rparr>, [])] \<and>
            remove env r i =
              (r\<lparr>pendingRemoval := Some p, iovs := Some (AList.delete i m)\<rparr>,
               [Log LInfo ''IovCollection - removing iov...'', IovDestroy i]
               @ (case iovDestroyOutcome env i of
                    None \<Rightarrow> []
                  | Some e \<Rightarrow> [LogN LError ''Error destroying Iov ${id} while removing'' i, LogE e]),
               Inr (case iovDestroyOutcome env i of None \<Rightarrow> This | Some e \<Rightarrow> Void)))"
  using assms remove_absent [OF assms, of i env] remove_twice [OF assms, of env' env i]
    remove_steps_present [OF assms, of i env] remove_present [OF assms, of i env]
  by blast

text \<open>
  C5, as stated, fails on a registry that has been destroyed: no session is held under
  id 1, yet \<^verbatim>\<open>remove(1)\<close> throws.
\<close>

theorem C5_remove_throws_on_destroyed_registry:
  "held (fst (destroy env0 (collection w1))) = {} \<and>
   result (remove env0 (fst (destroy env0 (collection w1))) 1)
     = Inl (TypeError ''Cannot read properties of null'')"
  by (simp add: destroy_shape remove_def get_dead held_def result_def w1_def)

text \<open>
  The amended property on the registry that holds session 1: removing the unknown id 2,
  removing session 1 while its \<^verbatim>\<open>destroy()\<close> throws, and removing it once more.
\<close>

theorem C5_remove_witness:
  "has (collection w1) 1 = Inr True \<and> has (collection w1) 2 = Inr False \<and>
   remove env0 (collection w1) 2 = (collection w1, [], Inr Void) \<and>
   remove (env0\<lparr>iovDestroyOutcome := (\<lambda>i. Some (Error ''teardown failed''))\<rparr>) (collection w1) 1 =
     ((collection w1)\<lparr>iovs := Some []\<rparr>,
      [Log LInfo ''IovCollection - removing iov...'', IovDestroy 1,
       LogN LError ''Error destroying Iov ${id} while removing'' 1,
       LogE (Error ''teardown failed'')],
      Inr Void) \<and>
   remove env0 ((collection w1)\<lparr>iovs := Some []\<rparr>) 1 = ((collection w1)\<lparr>iovs := Some []\<rparr>, [], Inr Void)"
proof -
  let ?env = "env0\<lparr>iovDestroyOutcome := (\<lambda>i. Some (Error ''teardown failed''))\<rparr>"
  have p: "pendingRemoval (collection w1) = Some {}" by (simp add: w1_def)
  have m: "iovs (collection w1) = Some [(1, s0)]" by (simp add: w1_def)
  have h1: "has (collection w1) 1 = Inr True" by (simp add: w1_def has_def)
  have h2: "has (collection w1) 2 = Inr False" by (simp add: w1_def has_def)
  have e: "(collection w1)\<lparr>pendingRemoval := Some {}, iovs := Some []\<rparr> = (collection w1)\<lparr>iovs := Some []\<rparr>"
    by (simp add: w1_def)
  have a: "remove env0 (collection w1) 2 = (collection w1, [], Inr Void)"
    using h2 C5_remove_marks_deletes_destroys_clears [OF p m, of 2 env0 env0] by simp
  have b: "remove ?env (collection w1) 1 =
     ((collection w1)\<lparr>iovs := Some []\<rparr>,
      [Log LInfo ''IovCollection - removing iov...'', IovDestroy 1,
       LogN LError ''Error destroying Iov ${id} while removing'' 1,
       LogE (Error ''teardown failed'')],
      Inr Void)"
    using h1 e C5_remove_marks_deletes_destroys_clears [OF p m, of 1 ?env env0] by simp
  have c: "remove env0 (fst (remove ?env (collection w1) 1)) 1
             = (fst (remove ?env (collection w1) 1), [], Inr Void)"
    using C5_remove_marks_deletes_destroys_clears [OF p m, of 1 ?env env0] by simp
  from h1 h2 a b c show ?thesis by simp
qed

subsection \<open>Session ids\<close>

text \<open>
  With a player class that defines its four event names, \<^verbatim>\<open>create\<close> builds the
  session and then throws when it registers its second listener, for
  \<^verbatim>\<open>Iov.events.REINITIALZE_ERROR\<close>, which the table does not define; the counter has
  been incremented by then.
\<close>

lemma registerHandlers_env0:
  "registerHandlers env0 = Some (Error (''Unable to register listener for unknown event '' @ quoted ''undefined''))"
  by (simp add: registerHandlers_def EventEmitter_on_def Iov_events_def Iov_events_table_def env0_def)

lemma registerHandlers_env1: "registerHandlers env1 = None"
  by (simp add: registerHandlers_def EventEmitter_on_def Iov_events_def Iov_events_table_def
      env1_def env0_def)

lemma Iov_factory_env0:
  "Iov_factory env0 i (Some cfg0) = Inr (s0\<lparr>iov_id := i, streamConfiguration := None\<rparr>)"
  by (simp add: Iov_factory_def initializeElements_def env0_def cfg0_def s0_def
      DEFAULT_ENABLE_METRICS_def DEFAULT_CONNECTION_CHANGE_PLAY_DELAY_def)

lemma Iov_factory_env1:
  "Iov_factory env1 i (Some cfg0) = Inr (s0\<lparr>iov_id := i, streamConfiguration := None\<rparr>)"
  by (simp add: Iov_factory_def initializeElements_def env1_def env0_def cfg0_def s0_def
      DEFAULT_ENABLE_METRICS_def DEFAULT_CONNECTION_CHANGE_PLAY_DELAY_def)

lemma create_env0:
  "create env0 w (Some cfg0) =
     (w\<lparr>totalIovCount := increment (totalIovCount w)\<rparr>,
      [LogN LInfo ''Creating Iov ${id}'' (increment (totalIovCount w)),
       LogN LInfo ''Created Iov ${id}'' (increment (totalIovCount w))],
      Inl (Error (''Unable to register listener for unknown event '' @ quoted ''undefined'')))"
  by (simp add: create_def Iov_factory_env0 registerHandlers_env0 Let_def)

lemma creates_env0:
  "k \<le> 2 ^ 53 \<Longrightarrow>
     exec (replicate n (env0, Create (Some cfg0))) \<lparr>totalIovCount = k, collection = c\<rparr>
       = \<lparr>totalIovCount = min (k + n) (2 ^ 53), collection = c\<rparr>"
proof (induction n arbitrary: k)
  case 0
  then show ?case by simp
next
  case (Suc n)
  have "increment k \<le> 2 ^ 53" using Suc.prems by (simp add: increment_def)
  from Suc.IH [OF this] Suc.prems show ?case
    by (auto simp: create_env0 increment_def min_def)
qed

text \<open>
  Below \<open>2 ^ 53\<close>, and with every id held handed out by the counter, the id of a
  new session is the successor of the counter, above every id held.
\<close>

lemma create_id_fresh:
  assumes "counted w" and "totalIovCount w < 2 ^ 53" and "result (create env w cfg) = Inr iov"
  shows "iov_id iov = totalIovCount w + 1 \<and> (\<forall>k \<in> held (collection w). k < iov_id iov)"
proof -
  from create_Inr [OF assms(3)] assms(2) have "iov_id iov = totalIovCount w + 1"
    by (simp add: increment_def)
  with assms(1) show ?thesis by (fastforce simp: counted_alt)
qed

text \<open>
  C6 does not hold of the counter. \<open>2 ^ 53\<close> calls of \<^verbatim>\<open>create\<close> bring the module
  to the counter value \<open>2 ^ 53\<close>; the last of them and every later one construct their
  session with the same id \<open>2 ^ 53\<close>. Where the listener registration succeeds, the
  session is held under that id, and after its removal the next session is held under
  the same id again.
\<close>

theorem C6_ids_repeat_once_the_counter_is_saturated:
  "exec (replicate (2 ^ 53) (env0, Create (Some cfg0))) initial = w_sat \<and>
   actions (create env0 (w_sat\<lparr>totalIovCount := 2 ^ 53 - 1\<rparr>) (Some cfg0)) =
     [LogN LInfo ''Creating Iov ${id}'' (2 ^ 53), LogN LInfo ''Created Iov ${id}'' (2 ^ 53)] \<and>
   fst (create env0 (w_sat\<lparr>totalIovCount := 2 ^ 53 - 1\<rparr>) (Some cfg0)) = w_sat \<and>
   actions (create env0 w_sat (Some cfg0)) =
     [LogN LInfo ''Creating Iov ${id}'' (2 ^ 53), LogN LInfo ''Created Iov ${id}'' (2 ^ 53)] \<and>
   fst (create env0 w_sat (Some cfg0)) = w_sat \<and>
   id_of (result (create env1 w_sat (Some cfg0))) = Some (2 ^ 53) \<and>
   held (collection (run env1 w_sat (Create (Some cfg0)))) = {2 ^ 53} \<and>
   held (collection (exec [(env1, Create (Some cfg0)), (env1, Remove (2 ^ 53))] w_sat)) = {} \<and>
   id_of (result (create env1 (exec [(env1, Create (Some cfg0)), (env1, Remove (2 ^ 53))] w_sat)
                   (Some cfg0))) = Some (2 ^ 53)"
proof -
  have 1: "exec (replicate (2 ^ 53) (env0, Create (Some cfg0))) initial = w_sat"
    using creates_env0 [of 0 "2 ^ 53" factory] by (simp add: initial_def w_sat_def)
  have 2: "actions (create env0 (w_sat\<lparr>totalIovCount := 2 ^ 53 - 1\<rparr>) (Some cfg0)) =
     [LogN LInfo ''Creating Iov ${id}'' (2 ^ 53), LogN LInfo ''Created Iov ${id}'' (2 ^ 53)]"
    by (simp add: create_env0 actions_def increment_def w_sat_def)
  have 3: "fst (create env0 (w_sat\<lparr>totalIovCount := 2 ^ 53 - 1\<rparr>) (Some cfg0)) = w_sat"
    by (simp add: create_env0 increment_def w_sat_def)
  have 4: "actions (create env0 w_sat (Some cfg0)) =
     [LogN LInfo ''Creating Iov ${id}'' (2 ^ 53), LogN LInfo ''Created Iov ${id}'' (2 ^ 53)]"
    by (simp add: create_env0 actions_def increment_def w_sat_def)
  have 5: "fst (create env0 w_sat (Some cfg0)) = w_sat"
    by (simp add: create_env0 increment_def w_sat_def)
  have c1: "create env1 w_sat (Some cfg0) =
     (w_sat\<lparr>collection := factory\<lparr>iovs := Some [(2 ^ 53, s0\<lparr>iov_id := 2 ^ 53, streamConfiguration := None\<rparr>)]\<rparr>\<rparr>,
      [LogN LInfo ''Creating Iov ${id}'' (2 ^ 53), LogN LInfo ''Created Iov ${id}'' (2 ^ 53),
       LogN LInfo ''Adding Iov ${id}'' (2 ^ 53)],
      Inr (s0\<lparr>iov_id := 2 ^ 53, streamConfiguration := None\<rparr>))"
    by (simp add: create_def Iov_factory_env1 registerHandlers_env1 add_def has_def
        increment_def w_sat_def factory_def)
  have 6: "id_of (result (create env1 w_sat (Some cfg0))) = Some (2 ^ 53)"
    by (simp add: c1 result_def)
  have 7: "held (collection (run env1 w_sat (Create (Some cfg0)))) = {2 ^ 53}"
    by (simp add: c1 held_def factory_def)
  have c2: "run env1 w_sat (Create (Some cfg0)) =
     w_sat\<lparr>collection := factory\<lparr>iovs := Some [(2 ^ 53, s0\<lparr>iov_id := 2 ^ 53, streamConfiguration := None\<rparr>)]\<rparr>\<rparr>"
    by (simp add: c1)
  have r: "exec [(env1, Create (Some cfg0)), (env1, Remove (2 ^ 53))] w_sat = w_sat"
    unfolding exec.simps c2
    by (simp add: remove_def get_def has_def remove_steps_def w_sat_def factory_def env1_def env0_def Let_def)
  have 8: "held (collection (exec [(env1, Create (Some cfg0)), (env1, Remove (2 ^ 53))] w_sat)) = {}"
    unfolding r by (simp add: held_def w_sat_def factory_def)
  have 9: "id_of (result (create env1 (exec [(env1, Create (Some cfg0)), (env1, Remove (2 ^ 53))] w_sat)
                   (Some cfg0))) = Some (2 ^ 53)"
    unfolding r by (rule 6)
  from 1 2 3 4 5 6 7 8 9 show ?thesis by blast
qed

subsection \<open>has and removal\<close>

lemma has_in_remove_steps:
  assumes "pendingRemoval r = Some p" and "iovs r = Some m"
  shows "\<forall>x \<in> set (remove_steps env r i). has (fst x) i = Inr False"
proof -
  let ?r1 = "r\<lparr>pendingRemoval := Some (insert i p)\<rparr>"
  let ?r2 = "r\<lparr>pendingRemoval := Some (insert i p), iovs := Some (AList.delete i m)\<rparr>"
  let ?r3 = "r\<lparr>pendingRemoval := Some (insert i p - {i}), iovs := Some (AList.delete i m)\<rparr>"
  have 1: "has ?r1 i = Inr False" by (simp add: has_def)
  have 2: "has ?r2 i = Inr False" by (simp add: has_def)
  have "map_of (AList.delete i m) i = None" by (simp add: AList.delete_conv')
  then have 3: "has ?r3 i = Inr False" by (simp add: has_def)
  have "fst ` set (remove_steps env r i) \<subseteq> {?r1, ?r2, ?r3}"
    using assms by (auto simp: remove_steps_def Let_def split: option.splits)
  with 1 2 3 show ?thesis by fastforce
qed

lemma removed_stays_absent:
  assumes "has (collection w) i = Inr True" and "i \<le> totalIovCount w" and "i < 2 ^ 53"
    and "\<forall>x \<in> set ops. i \<notin> added (snd x)"
  shows "i \<notin> held (collection (exec ops (run env w (Remove i))))"
proof -
  from assms(1) obtain p m where p: "pendingRemoval (collection w) = Some p"
    and m: "iovs (collection w) = Some m"
    by (auto simp: has_def split: if_splits option.splits)
  from assms(1) p m have h: "i \<noteq> 0 \<and> i \<notin> p \<and> i \<in> held (collection w)"
    by (simp add: has_live)
  from h p m have "i \<notin> held (fst (remove env (collection w) i))"
    by (simp add: remove_live held_delete)
  then have "i \<notin> held (collection (run env w (Remove i)))" by simp
  moreover have "i \<le> totalIovCount (run env w (Remove i))" using assms(2) by simp
  ultimately show ?thesis
    using assms(3,4) by (simp add: exec_keeps_absent del: run.simps)
qed

text \<open>
  C4, amended. On a registry that still has its two dictionaries, for a positive id
  \<open>i\<close>: \<^verbatim>\<open>has(i)\<close> returns true exactly when \<open>i\<close> is not marked in
  \<open>pendingRemoval\<close> and is a key of \<open>iovs\<close>, so it returns false whenever \<open>i\<close> is
  marked; at every program point of \<^verbatim>\<open>remove(i)\<close> past the marking \<^verbatim>\<open>has(i)\<close> is
  false; and once \<^verbatim>\<open>remove(i)\<close> has completed for a held id that the counter has
  handed out and that is below \<open>2 ^ 53\<close>, no sequence of \<^verbatim>\<open>create\<close>, \<^verbatim>\<open>add\<close>,
  \<^verbatim>\<open>remove\<close>, \<^verbatim>\<open>destroy\<close> and retries in which \<^verbatim>\<open>add\<close> is not handed a
  session with the id \<open>i\<close> brings \<open>i\<close> back into \<open>iovs\<close>.
\<close>

theorem C4_has_follows_pendingRemoval_and_sessions:
  assumes "pendingRemoval r = Some p" and "iovs r = Some m" and "0 < i"
  shows "has r i = Inr (i \<notin> p \<and> i \<in> held r) \<and>
         (i \<in> p \<longrightarrow> has r i = Inr False) \<and>
         (\<forall>x \<in> set (remove_steps env r i). has (fst x) i = Inr False) \<and>
         (collection w = r \<and> has r i = Inr True \<and> i \<le> totalIovCount w \<and> i < 2 ^ 53 \<and>
          (\<forall>x \<in> set ops. i \<notin> added (snd x))
            \<longrightarrow> i \<notin> held (collection (exec ops (run env w (Remove i)))))"
proof -
  from assms have 1: "has r i = Inr (i \<notin> p \<and> i \<in> held r)"
    by (simp add: has_live)
  then have 2: "i \<in> p \<longrightarrow> has r i = Inr False" by simp
  from assms have 3: "\<forall>x \<in> set (remove_steps env r i). has (fst x) i = Inr False"
    by (simp add: has_in_remove_steps)
  have 4: "collection w = r \<and> has r i = Inr True \<and> i \<le> totalIovCount w \<and> i < 2 ^ 53 \<and>
          (\<forall>x \<in> set ops. i \<notin> added (snd x))
            \<longrightarrow> i \<notin> held (collection (exec ops (run env w (Remove i))))"
    using removed_stays_absent [of w i ops env] by blast
  from 1 2 3 4 show ?thesis by blast
qed

text \<open>
  The amended property on the registry that holds session 1: the session is removed, a
  second one is created, a third is added under id 5 and removed.
\<close>

theorem C4_has_witness:
  "has (collection w1) 1 = Inr True \<and> (1::nat) \<le> totalIovCount w1 \<and> (1::nat) < 2 ^ 53 \<and>
   1 \<notin> added (Create (Some cfg0) :: string rop) \<and> 1 \<notin> added (Add (s0\<lparr>iov_id := 5\<rparr>)) \<and>
   1 \<notin> added (Remove 5 :: string rop) \<and>
   has (fst (last (butlast (remove_steps env0 (collection w1) 1)))) 1 = Inr False \<and>
   1 \<notin> held (collection
     (exec [(env1, Create (Some cfg0)), (env1, Add (s0\<lparr>iov_id := 5\<rparr>)), (env1, Remove 5)]
        (run env0 w1 (Remove 1))))"
proof -
  have p: "pendingRemoval (collection w1) = Some {}" by (simp add: w1_def)
  have m: "iovs (collection w1) = Some [(1, s0)]" by (simp add: w1_def)
  have h: "has (collection w1) 1 = Inr True" by (simp add: w1_def has_def)
  have c: "(1::nat) \<le> totalIovCount w1" by (simp add: w1_def)
  have x: "last (butlast (remove_steps env0 (collection w1) 1)) \<in> set (remove_steps env0 (collection w1) 1)"
    by (simp add: remove_steps_def env0_def Let_def)
  have a: "\<forall>x \<in> set [(env1, Create (Some cfg0)), (env1, Add (s0\<lparr>iov_id := 5\<rparr>)), (env1, Remove 5)].
             1 \<notin> added (snd x)"
    by simp
  show ?thesis
    using h c x a
      C4_has_follows_pendingRemoval_and_sessions [OF p m, of 1 env0 w1
        "[(env1, Create (Some cfg0)), (env1, Add (s0\<lparr>iov_id := 5\<rparr>)), (env1, Remove 5)]"]
    by simp
qed

subsection \<open>Reachable states\<close>

text \<open>
  The counter never passes \<open>2 ^ 53\<close>, and the registry used in the examples below
  arises from the initial module: one \<^verbatim>\<open>create\<close> where the listener registration
  succeeds, followed by \<^verbatim>\<open>changeSrc\<close> on the session returned.
\<close>

lemma count_bounded:
  "totalIovCount w \<le> 2 ^ 53 \<Longrightarrow> totalIovCount (exec ops w) \<le> 2 ^ 53"
proof (induction ops arbitrary: w)
  case Nil
  then show ?case by simp
next
  case (Cons a ops)
  obtain env op where a: "a = (env, op)" by (cases a)
  have "grows (added op) w (run env w op)" by (rule run_grows)
  with Cons.prems have "totalIovCount (run env w op) \<le> 2 ^ 53"
    by (auto simp: grows_def increment_def)
  then have "totalIovCount (exec ops (run env w op)) \<le> 2 ^ 53" by (rule Cons.IH)
  then show ?case by (simp add: a)
qed

lemma s0_playing:
  "fst (changeSrc env1 (s0\<lparr>streamConfiguration := None\<rparr>) (Url ''clsp://sfs/stream-a'')) = s0"
  by (simp add: changeSrc_def env1_def env0_def s0_def fromUrl_spec_stream_a)

lemma w1_reachable:
  "create env1 initial (Some cfg0) =
     (w1\<lparr>collection := (collection w1)\<lparr>iovs := Some [(1, s0\<lparr>streamConfiguration := None\<rparr>)]\<rparr>\<rparr>,
      [LogN LInfo ''Creating Iov ${id}'' 1, LogN LInfo ''Created Iov ${id}'' 1,
       LogN LInfo ''Adding Iov ${id}'' 1],
      Inr (s0\<lparr>streamConfiguration := None\<rparr>)) \<and>
   store s0 ((collection w1)\<lparr>iovs := Some [(1, s0\<lparr>streamConfiguration := None\<rparr>)]\<rparr>) = collection w1"
proof -
  have "create env1 initial (Some cfg0) =
     (w1\<lparr>collection := (collection w1)\<lparr>iovs := Some [(1, s0\<lparr>streamConfiguration := None\<rparr>)]\<rparr>\<rparr>,
      [LogN LInfo ''Creating Iov ${id}'' 1, LogN LInfo ''Created Iov ${id}'' 1,
       LogN LInfo ''Adding Iov ${id}'' 1],
      Inr (s0\<lparr>streamConfiguration := None\<rparr>))"
    by (simp add: create_def increment_def initial_def factory_def Iov_factory_env1
        registerHandlers_env1 add_def has_def w1_def s0_def Let_def)
  moreover
  have "store s0 ((collection w1)\<lparr>iovs := Some [(1, s0\<lparr>streamConfiguration := None\<rparr>)]\<rparr>) = collection w1"
    by (simp add: store_def w1_def s0_def)
  ultimately show ?thesis by blast
qed

subsection \<open>Removed ids that come back\<close>

lemma remove_session_1:
  "run env w1 (Remove 1) = w1\<lparr>collection := (collection w1)\<lparr>iovs := Some []\<rparr>\<rparr>"
  by (simp add: remove_def get_def has_def remove_steps_def w1_def Let_def)

lemma add_session_1_again:
  "run env (w1\<lparr>collection := (collection w1)\<lparr>iovs := Some []\<rparr>\<rparr>) (Add s0) = w1"
  by (simp add: add_def has_def w1_def s0_def)

lemma add_session_1_first:
  "run env initial (Add s0) = initial\<lparr>collection := factory\<lparr>iovs := Some [(1, s0)]\<rparr>\<rparr>"
  by (simp add: add_def has_def initial_def factory_def s0_def)

lemma remove_session_1_added:
  "run env (initial\<lparr>collection := factory\<lparr>iovs := Some [(1, s0)]\<rparr>\<rparr>) (Remove 1) = initial"
  by (simp add: remove_def get_def has_def remove_steps_def initial_def factory_def Let_def)

lemma create_saturated:
  "run env1 w_sat (Create (Some cfg0)) =
     w_sat\<lparr>collection := factory\<lparr>iovs := Some [(2 ^ 53, s0\<lparr>iov_id := 2 ^ 53, streamConfiguration := None\<rparr>)]\<rparr>\<rparr>"
  by (simp add: create_def Iov_factory_env1 registerHandlers_env1 add_def has_def
      increment_def w_sat_def factory_def)

lemma remove_saturated:
  "run env (w_sat\<lparr>collection := factory\<lparr>iovs := Some [(2 ^ 53, s0\<lparr>iov_id := 2 ^ 53, streamConfiguration := None\<rparr>)]\<rparr>\<rparr>)
     (Remove (2 ^ 53)) = w_sat"
  by (simp add: remove_def get_def has_def remove_steps_def w_sat_def factory_def Let_def)

text \<open>
  C4, as stated, fails. For every registry state: on a registry that has been destroyed
  \<open>pendingRemoval\<close> is \<^verbatim>\<open>null\<close> and \<^verbatim>\<open>has\<close> throws instead of returning false.
  Never reappears: after \<^verbatim>\<open>remove(1)\<close> has completed, \<^verbatim>\<open>add\<close> takes a session with
  id 1 and holds it under 1 again; with the counter at \<open>2 ^ 53\<close>, the session created
  after the removal of session \<open>2 ^ 53\<close> is held under \<open>2 ^ 53\<close> again; and a session
  added under id 1 before the counter got there and then removed is followed by the
  first session \<^verbatim>\<open>create\<close> makes, held under 1.
\<close>

theorem C4_has_throws_and_removed_ids_come_back:
  "has (fst (destroy env0 (collection w1))) 1 = Inl (TypeError ''Cannot read properties of null'') \<and>
   held (collection w1) = {1} \<and>
   held (collection (exec [(env0, Remove 1)] w1)) = {} \<and>
   held (collection (exec [(env0, Remove 1), (env0, Add s0)] w1)) = {1} \<and>
   held (collection (exec [(env1, Create (Some cfg0))] w_sat)) = {2 ^ 53} \<and>
   held (collection (exec [(env1, Create (Some cfg0)), (env1, Remove (2 ^ 53))] w_sat)) = {} \<and>
   held (collection (exec [(env1, Create (Some cfg0)), (env1, Remove (2 ^ 53)),
                           (env1, Create (Some cfg0))] w_sat)) = {2 ^ 53} \<and>
   held (collection (exec [(env1, Add s0)] initial)) = {1} \<and>
   held (collection (exec [(env1, Add s0), (env1, Remove 1)] initial)) = {} \<and>
   held (collection (exec [(env1, Add s0), (env1, Remove 1), (env1, Create (Some cfg0))] initial)) = {1}"
proof -
  have 1: "has (fst (destroy env0 (collection w1))) 1 = Inl (TypeError ''Cannot read properties of null'')"
    by (simp add: destroy_shape has_dead w1_def)
  have 2: "held (collection w1) = {1}" by (simp add: held_def w1_def)
  have 3: "held (collection (exec [(env0, Remove 1)] w1)) = {}"
    unfolding exec.simps remove_session_1 by (simp add: held_def)
  have 4: "held (collection (exec [(env0, Remove 1), (env0, Add s0)] w1)) = {1}"
    unfolding exec.simps remove_session_1 add_session_1_again by (rule 2)
  have 5: "held (collection (exec [(env1, Create (Some cfg0))] w_sat)) = {2 ^ 53}"
    unfolding exec.simps create_saturated by (simp add: held_def)
  have 6: "held (collection (exec [(env1, Create (Some cfg0)), (env1, Remove (2 ^ 53))] w_sat)) = {}"
    unfolding exec.simps create_saturated remove_saturated by (simp add: held_def w_sat_def factory_def)
  have 7: "held (collection (exec [(env1, Create (Some cfg0)), (env1, Remove (2 ^ 53)),
                           (env1, Create (Some cfg0))] w_sat)) = {2 ^ 53}"
    unfolding exec.simps create_saturated remove_saturated by (simp add: held_def)
  have 8: "held (collection (exec [(env1, Add s0)] initial)) = {1}"
    unfolding exec.simps add_session_1_first by (simp add: held_def)
  have 9: "held (collection (exec [(env1, Add s0), (env1, Remove 1)] initial)) = {}"
    unfolding exec.simps add_session_1_first remove_session_1_added
    by (simp add: held_def initial_def factory_def)
  have 10: "held (collection (exec [(env1, Add s0), (env1, Remove 1), (env1, Create (Some cfg0))] initial)) = {1}"
    unfolding exec.simps add_session_1_first remove_session_1_added
    by (simp add: w1_reachable held_def)
  from 1 2 3 4 5 6 7 8 9 10 show ?thesis by blast
qed

subsection \<open>create after destroy\<close>

text \<open>
  None of the errors of the constructor or of the listener registration is one by which
  the sources refuse work on a destroyed object.
\<close>

lemma initializeElements_error:
  "initializeElements env c = Inl e \<Longrightarrow> \<not> AlreadyDestroyed e"
  by (auto simp: initializeElements_def Let_def AlreadyDestroyed_def split: if_splits)

lemma Iov_factory_error: "Iov_factory env i cfg = Inl e \<Longrightarrow> \<not> AlreadyDestroyed e"
  by (auto simp: Iov_factory_def AlreadyDestroyed_def
      split: if_splits option.splits sum.splits dest: initializeElements_error)

lemma EventEmitter_on_error: "EventEmitter_on names n h = Some e \<Longrightarrow> \<not> AlreadyDestroyed e"
  by (auto simp: EventEmitter_on_def AlreadyDestroyed_def split: if_splits)

lemma first_error_in: "first_error xs = Some e \<Longrightarrow> Some e \<in> set xs"
  by (induction xs rule: first_error.induct) auto

lemma registerHandlers_error: "registerHandlers env = Some e \<Longrightarrow> \<not> AlreadyDestroyed e"
  by (auto simp: registerHandlers_def Let_def dest!: first_error_in dest: EventEmitter_on_error [OF sym])

lemma create_error_kind: "\<not> AlreadyDestroyed (create_error env i cfg)"
  by (auto simp: create_error_def AlreadyDestroyed_def
      split: sum.splits option.splits dest: Iov_factory_error registerHandlers_error)

lemma add_dead:
  "pendingRemoval r = None \<Longrightarrow> iov_id iov \<noteq> 0 \<Longrightarrow>
     add r iov = Inl (TypeError ''Cannot read properties of null'')"
  by (simp add: add_def has_dead)

lemma create_dead:
  assumes "pendingRemoval (collection w) = None"
  shows "result (create env w cfg) = Inl (create_error env (increment (totalIovCount w)) cfg) \<and>
         fst (create env w cfg) = w\<lparr>totalIovCount := increment (totalIovCount w)\<rparr>"
proof (cases "Iov_factory env (increment (totalIovCount w)) cfg")
  case (Inl e)
  then show ?thesis
    by (simp add: create_def create_error_def result_def Let_def)
next
  case (Inr iov)
  then have "iov_id iov \<noteq> 0"
    using Iov_factory_id [OF Inr] increment_bounds [of "totalIovCount w"] by simp
  with assms have "add (collection w) iov = Inl (TypeError ''Cannot read properties of null'')"
    by (simp add: add_dead)
  with Inr show ?thesis
    by (simp add: create_def create_error_def result_def Let_def split: option.splits)
qed

lemma run_dead:
  assumes "pendingRemoval (collection w) = None" and "isDestroyedC (collection w)"
  shows "collection (run env w op) = collection w"
proof (cases op)
  case (Create cfg)
  with create_dead [OF assms(1), of env cfg] show ?thesis by simp
next
  case (Add iov)
  with assms show ?thesis
    by (cases "iov_id iov = 0") (simp_all add: add_def has_dead Let_def)
next
  case (Remove i)
  with assms show ?thesis by (simp add: remove_dead)
next
  case Destroy
  with assms show ?thesis by (simp add: destroy_state del: keys.simps)
next
  case (Retry i cfg)
  with assms show ?thesis by (simp add: get_dead)
qed

lemma exec_dead:
  "pendingRemoval (collection w) = None \<Longrightarrow> isDestroyedC (collection w)
     \<Longrightarrow> collection (exec ops w) = collection w"
proof (induction ops arbitrary: w)
  case Nil
  then show ?case by simp
next
  case (Cons a ops)
  obtain env op where a: "a = (env, op)" by (cases a)
  have c: "collection (run env w op) = collection w"
    using Cons.prems by (rule run_dead)
  with Cons.prems have "collection (exec ops (run env w op)) = collection (run env w op)"
    by (intro Cons.IH) simp_all
  with c show ?case by (simp add: a)
qed

lemma destroy_dead:
  assumes "shape r"
  shows "iovs (fst (destroy env r)) = None \<and> pendingRemoval (fst (destroy env r)) = None \<and>
         isDestroyedC (fst (destroy env r))"
proof (cases "isDestroyedC r")
  case True
  with assms show ?thesis by (simp add: destroy_state shape_def del: keys.simps)
next
  case False
  from destroy_shape [OF False, of env] show ?thesis by simp
qed

text \<open>
  C7, amended. After \<^verbatim>\<open>destroy()\<close> has returned, \<open>iovs\<close> is \<^verbatim>\<open>null\<close> and no
  session is held; no later operation changes the registry; and every later call of
  \<^verbatim>\<open>create\<close> throws, leaving the registry as it is. The error is not one raised for
  the destroyed state: it is the error of the constructor, else that of the listener
  registration, else the type error raised when \<^verbatim>\<open>add\<close> reaches the missing
  \<open>pendingRemoval\<close>.
\<close>

theorem C7_create_throws_after_destroy:
  assumes "wf w"
  shows "iovs (collection (run env w Destroy)) = None \<and>
         held (collection (run env w Destroy)) = {} \<and>
         collection (exec ops (run env w Destroy)) = collection (run env w Destroy) \<and>
         result (create env' (exec ops (run env w Destroy)) cfg) =
           Inl (create_error env' (increment (totalIovCount (exec ops (run env w Destroy)))) cfg) \<and>
         \<not> AlreadyDestroyed
             (create_error env' (increment (totalIovCount (exec ops (run env w Destroy)))) cfg) \<and>
         collection (fst (create env' (exec ops (run env w Destroy)) cfg)) =
           collection (run env w Destroy)"
proof -
  let ?d = "run env w Destroy"
  from assms have "shape (collection w)" by (simp add: wf_alt)
  from destroy_dead [OF this, of env]
  have d: "iovs (collection ?d) = None \<and> pendingRemoval (collection ?d) = None \<and>
           isDestroyedC (collection ?d)"
    by simp
  then have 1: "held (collection ?d) = {}" by (simp add: held_def)
  from d have 2: "collection (exec ops ?d) = collection ?d" by (simp add: exec_dead)
  with d have p: "pendingRemoval (collection (exec ops ?d)) = None" by simp
  from create_dead [OF p, of env' cfg] d 1 2 show ?thesis
    by (simp add: create_error_kind)
qed

text \<open>
  C7, as stated, fails: after \<^verbatim>\<open>destroy()\<close> a call of \<^verbatim>\<open>create\<close> does throw, but
  with the error of the listener registration, or with a type error when the
  registration succeeds, and neither is an error for a destroyed object.
\<close>

theorem C7_create_after_destroy_is_not_refused_as_destroyed:
  "result (create env0 (run env0 w1 Destroy) (Some cfg0)) =
     Inl (Error (''Unable to register listener for unknown event '' @ quoted ''undefined'')) \<and>
   \<not> AlreadyDestroyed (Error (''Unable to register listener for unknown event '' @ quoted ''undefined'')) \<and>
   result (create env1 (run env0 w1 Destroy) (Some cfg0)) =
     Inl (TypeError ''Cannot read properties of null'') \<and>
   \<not> AlreadyDestroyed (TypeError ''Cannot read properties of null'')"
proof -
  have p: "pendingRemoval (collection (run env0 w1 Destroy)) = None"
    by (simp add: destroy_shape w1_def)
  have 1: "result (create env0 (run env0 w1 Destroy) (Some cfg0)) =
     Inl (Error (''Unable to register listener for unknown event '' @ quoted ''undefined''))"
    by (simp add: create_env0 result_def)
  have 2: "result (create env1 (run env0 w1 Destroy) (Some cfg0)) =
     Inl (TypeError ''Cannot read properties of null'')"
    using create_dead [OF p, of env1 "Some cfg0"]
    by (simp add: create_error_def Iov_factory_env1 registerHandlers_env1)
  from 1 2 show ?thesis by (simp add: AlreadyDestroyed_def)
qed

text \<open>
  The amended property on the registry that holds session 1: it is destroyed, a removal
  and a creation are attempted, and a further creation throws the type error.
\<close>

theorem C7_destroy_witness:
  "wf w1 \<and> held (collection w1) = {1} \<and>
   held (collection (run env0 w1 Destroy)) = {} \<and>
   result (create env1 (exec [(env0, Remove 1), (env1, Create (Some cfg0))] (run env0 w1 Destroy))
             (Some cfg0)) = Inl (TypeError ''Cannot read properties of null'')"
proof -
  have h: "held (collection w1) = {1}" by (simp add: held_def w1_def)
  have e: "create_error env1 i (Some cfg0) = TypeError ''Cannot read properties of null''" for i
    by (simp add: create_error_def Iov_factory_env1 registerHandlers_env1)
  show ?thesis
    using h wf_w1
      C7_create_throws_after_destroy [OF wf_w1, of env0 "[(env0, Remove 1), (env1, Create (Some cfg0))]"
        env1 "Some cfg0"]
    by (simp add: e del: run.simps exec.simps)
qed

end
